theory Spec2Isabelle
  imports Complex_Main "HOL-Library.Log_Nat" "HOL-Library.Multiset"
begin

section \<open>JavaScript values used by the service\<close>

subsection \<open>Numbers\<close>

text \<open>
  A JavaScript Number is an IEEE-754 binary64 value. The finite ones are carried by the
  rational they denote; the two zeros are identified (the service only adds, multiplies,
  divides by 100 and rounds, and never observes the sign of a zero).
\<close>

datatype jsnum = Fin rat | PInf | NInf | NaN

definition pow2 :: "int \<Rightarrow> rat" where
  "pow2 e = (if 0 \<le> e then 2 ^ nat e else 1 / 2 ^ nat (- e))"

text \<open>The binary exponent \<open>\<lfloor>log\<^sub>2 x\<rfloor>\<close> of a positive rational.\<close>

definition ilog2 :: "rat \<Rightarrow> int" where
  "ilog2 x = (if 1 \<le> x then bitlen \<lfloor>x\<rfloor> - 1 else - bitlen (\<lceil>1 / x\<rceil> - 1))"

text \<open>Nearest integer, a tie going to the even neighbour.\<close>

definition round_even :: "rat \<Rightarrow> int" where
  "round_even r =
     (let f = \<lfloor>r\<rfloor>; d = r - of_int f
      in if d < 1 / 2 then f else if 1 / 2 < d then f + 1 else if even f then f else f + 1)"

text \<open>
  The result of an arithmetic operation whose exact value is \<open>x\<close>: the nearest binary64
  value (53 significant bits, exponents down to the subnormal range, ties to even), or an
  infinity when the rounded magnitude reaches \<open>2\<^sup>1\<^sup>0\<^sup>2\<^sup>4\<close>.
\<close>

definition to_double :: "rat \<Rightarrow> jsnum" where
  "to_double x =
     (if x = 0 then Fin 0
      else
        let e = max (ilog2 \<bar>x\<bar>) (- 1022);
            u = pow2 (e - 52);
            y = of_int (round_even (x / u)) * u
        in if pow2 1024 \<le> \<bar>y\<bar> then (if 0 < x then PInf else NInf) else Fin y)"

text \<open>The operators \<open>*\<close>, \<open>+\<close> and \<open>/\<close> on Numbers.\<close>

fun js_times :: "jsnum \<Rightarrow> jsnum \<Rightarrow> jsnum" where
  "js_times NaN _ = NaN"
| "js_times _ NaN = NaN"
| "js_times (Fin x) (Fin y) = to_double (x * y)"
| "js_times (Fin x) PInf = (if x = 0 then NaN else if 0 < x then PInf else NInf)"
| "js_times (Fin x) NInf = (if x = 0 then NaN else if 0 < x then NInf else PInf)"
| "js_times PInf (Fin y) = (if y = 0 then NaN else if 0 < y then PInf else NInf)"
| "js_times NInf (Fin y) = (if y = 0 then NaN else if 0 < y then NInf else PInf)"
| "js_times PInf PInf = PInf"
| "js_times PInf NInf = NInf"
| "js_times NInf PInf = NInf"
| "js_times NInf NInf = PInf"

fun js_plus :: "jsnum \<Rightarrow> jsnum \<Rightarrow> jsnum" where
  "js_plus NaN _ = NaN"
| "js_plus _ NaN = NaN"
| "js_plus (Fin x) (Fin y) = to_double (x + y)"
| "js_plus (Fin x) PInf = PInf"
| "js_plus (Fin x) NInf = NInf"
| "js_plus PInf (Fin y) = PInf"
| "js_plus NInf (Fin y) = NInf"
| "js_plus PInf PInf = PInf"
| "js_plus PInf NInf = NaN"
| "js_plus NInf PInf = NaN"
| "js_plus NInf NInf = NInf"

text \<open>
  Division. A zero divisor is read as \<open>+0\<close>; the service divides by the literal 100 only.
\<close>

fun js_divide :: "jsnum \<Rightarrow> jsnum \<Rightarrow> jsnum" where
  "js_divide NaN _ = NaN"
| "js_divide _ NaN = NaN"
| "js_divide (Fin x) (Fin y) =
     (if y = 0 then (if x = 0 then NaN else if 0 < x then PInf else NInf)
      else to_double (x / y))"
| "js_divide (Fin x) PInf = Fin 0"
| "js_divide (Fin x) NInf = Fin 0"
| "js_divide PInf (Fin y) = (if 0 \<le> y then PInf else NInf)"
| "js_divide NInf (Fin y) = (if 0 \<le> y then NInf else PInf)"
| "js_divide PInf PInf = NaN"
| "js_divide PInf NInf = NaN"
| "js_divide NInf PInf = NaN"
| "js_divide NInf NInf = NaN"

text \<open>
  \<open>Math.round\<close>: the integer closest to the argument, a tie going towards \<open>+\<infinity>\<close>. The
  result is exact: a binary64 value of magnitude \<open>2\<^sup>5\<^sup>2\<close> or more is already an integer.
\<close>

fun Math_round :: "jsnum \<Rightarrow> jsnum" where
  "Math_round (Fin x) = Fin (of_int \<lfloor>x + 1 / 2\<rfloor>)"
| "Math_round PInf = PInf"
| "Math_round NInf = NInf"
| "Math_round NaN = NaN"

subsection \<open>Thrown values and promises\<close>

text \<open>
  What a \<open>catch\<close> clause can receive: an Error object (its \<open>name\<close> and \<open>message\<close>), a thrown
  string, \<open>undefined\<close> or \<open>null\<close>.
\<close>

datatype thrown = Error_obj string string | Thrown_string string | Thrown_undefined | Thrown_null

datatype 'a promise = Resolved 'a | Rejected thrown

text \<open>\<open>Error.prototype.toString\<close>.\<close>

definition error_toString :: "string \<Rightarrow> string \<Rightarrow> string" where
  "error_toString nm msg =
     (if nm = [] then msg else if msg = [] then nm else nm @ '': '' @ msg)"

text \<open>
  \<open>String(err?.message || err)\<close>: the message when it is a non-empty string, the string
  conversion of the thrown value otherwise.
\<close>

fun error_string :: "thrown \<Rightarrow> string" where
  "error_string (Error_obj nm msg) = (if msg \<noteq> [] then msg else error_toString nm msg)"
| "error_string (Thrown_string s) = s"
| "error_string Thrown_undefined = ''undefined''"
| "error_string Thrown_null = ''null''"

subsection \<open>Object ids\<close>

text \<open>
  An ObjectId is a 96-bit value; \<open>String(id)\<close> is its 24 lower-case hexadecimal digits.
\<close>

datatype objectId = ObjectId nat

definition hex_digit :: "nat \<Rightarrow> char" where
  "hex_digit d = ''0123456789abcdef'' ! (d mod 16)"

fun hex_digits :: "nat \<Rightarrow> nat \<Rightarrow> string" where
  "hex_digits 0 n = []"
| "hex_digits (Suc k) n = hex_digits k (n div 16) @ [hex_digit n]"

definition toHexString :: "objectId \<Rightarrow> string" where
  "toHexString i = (case i of ObjectId n \<Rightarrow> hex_digits 24 n)"





section \<open>The data model\<close>

text \<open>
  The validated request body of \<open>POST /orders\<close>, and an item once its line total has been
  added (\<open>{...i, lineTotal}\<close>).
\<close>

record item =
  sku :: string
  name :: string
  unitPrice :: jsnum
  quantity :: jsnum

record item_with_total = item +
  lineTotal :: jsnum

record validated =
  customerId :: string
  currency :: string
  items :: "item list"

text \<open>
  The three collections. Every schema has \<open>timestamps: true\<close>, which adds \<open>createdAt\<close> and
  \<open>updatedAt\<close> (milliseconds). An absent and a \<open>null\<close> \<open>lastError\<close> are both \<open>None\<close>.
\<close>

datatype order_status = Order_PENDING | CONFIRMED | CANCELLED

datatype outbox_status = PENDING | SENT | FAILED

record summary_entry =
  s_sku :: string
  s_quantity :: jsnum
  s_lineTotal :: jsnum

record order =
  o_id :: objectId
  o_customerId :: string
  o_currency :: string
  o_status :: order_status
  o_itemsSummary :: "summary_entry list"
  o_grandTotal :: jsnum
  o_createdAt :: nat
  o_updatedAt :: nat

record order_item =
  oi_id :: objectId
  oi_orderId :: objectId
  oi_sku :: string
  oi_name :: string
  oi_unitPrice :: jsnum
  oi_quantity :: jsnum
  oi_lineTotal :: jsnum
  oi_createdAt :: nat
  oi_updatedAt :: nat

record payload =
  p_orderId :: string
  p_customerId :: string
  p_currency :: string
  p_grandTotal :: jsnum
  p_items :: "item_with_total list"

record outbox_event =
  e_id :: objectId
  e_type :: string
  e_aggregateId :: string
  e_payload :: payload
  e_status :: outbox_status
  e_lastError :: "string option"
  e_createdAt :: nat
  e_updatedAt :: nat

record store =
  orders :: "order list"
  orderItems :: "order_item list"
  outboxEvents :: "outbox_event list"

text \<open>
  Everything a handler or the worker can touch: the database, the calls made to
  \<open>publish\<close> so far, and the log.
\<close>

datatype log_entry = Log_info string string | Log_error "string option" thrown string

record world =
  db :: store
  published :: "outbox_event list"
  logged :: "log_entry list"

subsection \<open>Schema validation and inserts\<close>

text \<open>The \<open>min\<close> validator of a Number path; \<open>NaN\<close> does not cast to a Number.\<close>

fun num_min :: "rat \<Rightarrow> jsnum \<Rightarrow> bool" where
  "num_min m (Fin r) = (m \<le> r)"
| "num_min m PInf = True"
| "num_min m NInf = False"
| "num_min m NaN = False"

text \<open>A \<open>required\<close> String path refuses the empty string.\<close>

definition valid_order :: "order \<Rightarrow> bool" where
  "valid_order d \<longleftrightarrow> o_customerId d \<noteq> [] \<and> o_currency d \<noteq> [] \<and> num_min 0 (o_grandTotal d)"

definition valid_order_item :: "order_item \<Rightarrow> bool" where
  "valid_order_item d \<longleftrightarrow>
     oi_sku d \<noteq> [] \<and> oi_name d \<noteq> [] \<and> num_min 0 (oi_unitPrice d) \<and>
     num_min 1 (oi_quantity d) \<and> num_min 0 (oi_lineTotal d)"

definition valid_outbox_event :: "outbox_event \<Rightarrow> bool" where
  "valid_outbox_event d \<longleftrightarrow> e_type d \<noteq> [] \<and> e_aggregateId d \<noteq> []"

definition ValidationError :: thrown where
  "ValidationError = Error_obj ''ValidationError'' ''Validation failed''"

definition DuplicateKey :: thrown where
  "DuplicateKey = Error_obj ''MongoServerError'' ''E11000 duplicate key error''"


text \<open>
  The awaited calls of the two request handlers. Each can reject for a reason outside the
  program (the connection, the server); \<open>fault\<close> says which do, and with what.
\<close>

datatype step =
  StartSession | Order_create | OrderItem_insertMany | OutboxEvent_create |
  CommitTransaction | AbortTransaction | Order_findById | OrderItem_find

record request_env =
  fault :: "step \<Rightarrow> thrown option"
  newId :: "nat \<Rightarrow> objectId"
  clock :: nat

text \<open>
  An insert validates the document against its schema, then sends it; the collection
  refuses a second document with the same \<open>_id\<close>.
\<close>

definition Order_create_op :: "request_env \<Rightarrow> order \<Rightarrow> store \<Rightarrow> thrown + store" where
  "Order_create_op env d s =
     (if \<not> valid_order d then Inl ValidationError
      else case fault env Order_create of
        Some err \<Rightarrow> Inl err
      | None \<Rightarrow>
          if o_id d \<in> set (map o_id (orders s)) then Inl DuplicateKey
          else Inr (s\<lparr>orders := orders s @ [d]\<rparr>))"

definition OrderItem_insertMany_op ::
  "request_env \<Rightarrow> order_item list \<Rightarrow> store \<Rightarrow> thrown + store" where
  "OrderItem_insertMany_op env ds s =
     (if \<not> list_all valid_order_item ds then Inl ValidationError
      else case fault env OrderItem_insertMany of
        Some err \<Rightarrow> Inl err
      | None \<Rightarrow>
          if \<not> distinct (map oi_id (orderItems s @ ds)) then Inl DuplicateKey
          else Inr (s\<lparr>orderItems := orderItems s @ ds\<rparr>))"

definition OutboxEvent_create_op ::
  "request_env \<Rightarrow> outbox_event \<Rightarrow> store \<Rightarrow> thrown + store" where
  "OutboxEvent_create_op env d s =
     (if \<not> valid_outbox_event d then Inl ValidationError
      else case fault env OutboxEvent_create of
        Some err \<Rightarrow> Inl err
      | None \<Rightarrow>
          if e_id d \<in> set (map e_id (outboxEvents s)) then Inl DuplicateKey
          else Inr (s\<lparr>outboxEvents := outboxEvents s @ [d]\<rparr>))"

section \<open>POST /orders\<close>

text \<open>
  \<open>lineTotal: Math.round((i.unitPrice * i.quantity) * 100) / 100\<close>
\<close>

definition round2 :: "jsnum \<Rightarrow> jsnum" where
  "round2 x = js_divide (Math_round (js_times x (Fin 100))) (Fin 100)"

definition with_total :: "item \<Rightarrow> item_with_total" where
  "with_total i =
     \<lparr>sku = sku i, name = name i, unitPrice = unitPrice i, quantity = quantity i,
      lineTotal = round2 (js_times (unitPrice i) (quantity i))\<rparr>"

definition itemsWithTotals :: "item list \<Rightarrow> item_with_total list" where
  "itemsWithTotals is = map with_total is"

text \<open>
  \<open>Math.round(itemsWithTotals.reduce((s, i) => s + i.lineTotal, 0) * 100) / 100\<close>
\<close>

definition grandTotal :: "item_with_total list \<Rightarrow> jsnum" where
  "grandTotal iwt = round2 (foldl (\<lambda>s i. js_plus s (lineTotal i)) (Fin 0) iwt)"

definition order_doc :: "request_env \<Rightarrow> validated \<Rightarrow> order" where
  "order_doc env req =
     (let iwt = itemsWithTotals (items req) in
      \<lparr>o_id = newId env 0,
       o_customerId = customerId req,
       o_currency = currency req,
       o_status = CONFIRMED,
       o_itemsSummary =
         map (\<lambda>i. \<lparr>s_sku = sku i, s_quantity = quantity i, s_lineTotal = lineTotal i\<rparr>) iwt,
       o_grandTotal = grandTotal iwt,
       o_createdAt = clock env,
       o_updatedAt = clock env\<rparr>)"

definition itemsDocs :: "request_env \<Rightarrow> objectId \<Rightarrow> item_with_total list \<Rightarrow> order_item list" where
  "itemsDocs env orderId iwt =
     map (\<lambda>(k, i).
            \<lparr>oi_id = newId env (Suc k),
             oi_orderId = orderId,
             oi_sku = sku i,
             oi_name = name i,
             oi_unitPrice = unitPrice i,
             oi_quantity = quantity i,
             oi_lineTotal = lineTotal i,
             oi_createdAt = clock env,
             oi_updatedAt = clock env\<rparr>)
         (enumerate 0 iwt)"

definition outbox_doc :: "request_env \<Rightarrow> validated \<Rightarrow> objectId \<Rightarrow> outbox_event" where
  "outbox_doc env req orderId =
     (let iwt = itemsWithTotals (items req) in
      \<lparr>e_id = newId env (Suc (length iwt)),
       e_type = ''ORDER_CREATED'',
       e_aggregateId = toHexString orderId,
       e_payload =
         \<lparr>p_orderId = toHexString orderId,
          p_customerId = customerId req,
          p_currency = currency req,
          p_grandTotal = grandTotal iwt,
          p_items = iwt\<rparr>,
       e_status = PENDING,
       e_lastError = None,
       e_createdAt = clock env,
       e_updatedAt = clock env\<rparr>)"

text \<open>
  The body of the \<open>try\<close> block, run against the session's view of the database: the
  three inserts and the commit. \<open>Inl\<close> is the value the \<open>catch\<close> clause receives; \<open>Inr\<close>
  is the committed database together with \<open>order[0]._id\<close>. A commit that rejects has
  committed nothing.
\<close>

definition transaction :: "request_env \<Rightarrow> validated \<Rightarrow> store \<Rightarrow> thrown + store \<times> objectId" where
  "transaction env req s =
     (case Order_create_op env (order_doc env req) s of
        Inl err \<Rightarrow> Inl err
      | Inr s1 \<Rightarrow>
          let orderId = o_id (order_doc env req) in
          (case OrderItem_insertMany_op env
                  (itemsDocs env orderId (itemsWithTotals (items req))) s1 of
             Inl err \<Rightarrow> Inl err
           | Inr s2 \<Rightarrow>
               (case OutboxEvent_create_op env (outbox_doc env req orderId) s2 of
                  Inl err \<Rightarrow> Inl err
                | Inr s3 \<Rightarrow>
                    (case fault env CommitTransaction of
                       Some err \<Rightarrow> Inl err
                     | None \<Rightarrow> Inr (s3, orderId)))))"

text \<open>
  What the caller gets: a response, or nothing from this handler when the handler's
  promise rejects (\<open>Unhandled\<close>).
\<close>

datatype body =
  Created objectId jsnum string order_status
| Error_body string
| Order_body order "order_item list"

datatype outcome = Response nat body | Unhandled thrown

text \<open>
  The handler. The session is opened before the \<open>try\<close>; a failed transaction is aborted
  (whatever \<open>abortTransaction\<close> itself does is swallowed), which leaves the database as it
  was.
\<close>

definition post_orders :: "request_env \<Rightarrow> validated \<Rightarrow> world \<Rightarrow> outcome \<times> world" where
  "post_orders env req w =
     (case fault env StartSession of
        Some err \<Rightarrow> (Unhandled err, w)
      | None \<Rightarrow>
          (case transaction env req (db w) of
             Inr (s, orderId) \<Rightarrow>
               (Response 201
                  (Created orderId (grandTotal (itemsWithTotals (items req))) (currency req)
                     CONFIRMED),
                w\<lparr>db := s,
                  logged := logged w @ [Log_info (toHexString orderId) ''order created'']\<rparr>)
           | Inl err \<Rightarrow>
               (Response 500 (Error_body ''OrderCreationFailed''),
                w\<lparr>logged := logged w @ [Log_error None err ''order creation failed'']\<rparr>)))"

section \<open>GET /orders/:id\<close>


section \<open>The outbox worker\<close>

text \<open>The publisher the worker ships with: it resolves to \<open>true\<close>.\<close>

definition publish :: "outbox_event \<Rightarrow> bool promise" where
  "publish evt = Resolved True"

definition BATCH :: nat where
  "BATCH = 50"

text \<open>
  The store calls of one tick that can reject for a reason outside the program: the
  query for the batch, and for each event the write after a publish that resolved and
  the write in the \<open>catch\<close> clause. A rejected call leaves the collection as it was.
\<close>

record tick_env =
  find_fault :: "thrown option"
  sent_fault :: "objectId \<Rightarrow> thrown option"
  failed_fault :: "objectId \<Rightarrow> thrown option"
  tick_clock :: nat

text \<open>\<open>OutboxEvent.find({ status: "PENDING" }).sort({ createdAt: 1 }).limit(BATCH)\<close>\<close>

definition find_pending :: "store \<Rightarrow> outbox_event list" where
  "find_pending s =
     take BATCH (sort_key e_createdAt (filter (\<lambda>e. e_status e = PENDING) (outboxEvents s)))"

text \<open>\<open>updateOne\<close>: the first document the filter matches is updated, if there is one.\<close>

fun updateFirst :: "('a \<Rightarrow> bool) \<Rightarrow> ('a \<Rightarrow> 'a) \<Rightarrow> 'a list \<Rightarrow> 'a list" where
  "updateFirst p f [] = []"
| "updateFirst p f (x # xs) = (if p x then f x # xs else x # updateFirst p f xs)"

text \<open>
  \<open>updateOne({ _id, status: "PENDING" }, { $set: { status: "SENT", lastError: null } })\<close>
  and \<open>updateOne({ _id }, { $set: { status: "FAILED", lastError } })\<close>. With
  \<open>timestamps: true\<close> an update also sets \<open>updatedAt\<close>.
\<close>

definition mark_sent :: "nat \<Rightarrow> objectId \<Rightarrow> store \<Rightarrow> store" where
  "mark_sent now i s =
     s\<lparr>outboxEvents :=
         updateFirst (\<lambda>e. e_id e = i \<and> e_status e = PENDING)
           (\<lambda>e. e\<lparr>e_status := SENT, e_lastError := None, e_updatedAt := now\<rparr>)
           (outboxEvents s)\<rparr>"

definition mark_failed :: "nat \<Rightarrow> objectId \<Rightarrow> string \<Rightarrow> store \<Rightarrow> store" where
  "mark_failed now i msg s =
     s\<lparr>outboxEvents :=
         updateFirst (\<lambda>e. e_id e = i)
           (\<lambda>e. e\<lparr>e_status := FAILED, e_lastError := Some msg, e_updatedAt := now\<rparr>)
           (outboxEvents s)\<rparr>"

text \<open>
  The \<open>catch\<close> clause of one event. When its own write rejects, the rejection leaves
  the loop (the second component).
\<close>

definition on_failure :: "tick_env \<Rightarrow> outbox_event \<Rightarrow> thrown \<Rightarrow> world \<Rightarrow> world \<times> thrown option" where
  "on_failure env evt err w =
     (case failed_fault env (e_id evt) of
        Some err' \<Rightarrow> (w, Some err')
      | None \<Rightarrow>
          (w\<lparr>db := mark_failed (tick_clock env) (e_id evt) (error_string err) (db w),
             logged := logged w @
               [Log_error (Some (toHexString (e_id evt))) err ''outbox publish failed'']\<rparr>,
           None))"

text \<open>The body of the loop for one event; the value \<open>publish\<close> resolves to is not read.\<close>

definition handle_event ::
  "(outbox_event \<Rightarrow> bool promise) \<Rightarrow> tick_env \<Rightarrow> outbox_event \<Rightarrow> world \<Rightarrow> world \<times> thrown option" where
  "handle_event pub env evt w =
     (let w1 = w\<lparr>published := published w @ [evt]\<rparr> in
      case pub evt of
        Rejected err \<Rightarrow> on_failure env evt err w1
      | Resolved _ \<Rightarrow>
          (case sent_fault env (e_id evt) of
             Some err \<Rightarrow> on_failure env evt err w1
           | None \<Rightarrow>
               (w1\<lparr>db := mark_sent (tick_clock env) (e_id evt) (db w1),
                   logged := logged w1 @ [Log_info (toHexString (e_id evt)) ''outbox sent'']\<rparr>,
                None)))"

fun for_events ::
  "(outbox_event \<Rightarrow> bool promise) \<Rightarrow> tick_env \<Rightarrow> outbox_event list \<Rightarrow> world \<Rightarrow> world \<times> thrown option" where
  "for_events pub env [] w = (w, None)"
| "for_events pub env (evt # events) w =
     (case handle_event pub env evt w of
        (w', Some err) \<Rightarrow> (w', Some err)
      | (w', None) \<Rightarrow> for_events pub env events w')"

text \<open>
  One firing of the interval, for a given publisher: the outer \<open>try\<close> logs whatever
  leaves the query or the loop.
\<close>

definition tick_with :: "(outbox_event \<Rightarrow> bool promise) \<Rightarrow> tick_env \<Rightarrow> world \<Rightarrow> world" where
  "tick_with pub env w =
     (case find_fault env of
        Some err \<Rightarrow> w\<lparr>logged := logged w @ [Log_error None err ''outbox tick failed'']\<rparr>
      | None \<Rightarrow>
          (case for_events pub env (find_pending (db w)) w of
             (w', Some err) \<Rightarrow>
               w'\<lparr>logged := logged w' @ [Log_error None err ''outbox tick failed'']\<rparr>
           | (w', None) \<Rightarrow> w'))"

definition tick :: "tick_env \<Rightarrow> world \<Rightarrow> world" where
  "tick = tick_with publish"

text \<open>
  \<open>setInterval\<close> does not wait for the callback: it is an \<open>async\<close> function, suspended at
  each \<open>await\<close>, and the next firing starts after the interval whether or not the earlier
  ones have ended. A firing in flight keeps the batch it has read and the events of it
  that are still to come. A move starts a new firing (the query for its batch), or lets
  the firing at a given position run its loop body for its next event; firings
  interleave at least at this grain.
\<close>

record firing =
  f_env :: tick_env
  f_rest :: "outbox_event list"

datatype move = Fire tick_env | Resume nat

fun move_with ::
  "(outbox_event \<Rightarrow> bool promise) \<Rightarrow> move \<Rightarrow> world \<times> firing list \<Rightarrow> world \<times> firing list" where
  "move_with pub (Fire env) (w, fs) =
     (case find_fault env of
        Some err \<Rightarrow> (w\<lparr>logged := logged w @ [Log_error None err ''outbox tick failed'']\<rparr>, fs)
      | None \<Rightarrow> (w, fs @ [\<lparr>f_env = env, f_rest = find_pending (db w)\<rparr>]))"
| "move_with pub (Resume k) (w, fs) =
     (if k < length fs then
        (case f_rest (fs ! k) of
           [] \<Rightarrow> (w, fs)
         | evt # events \<Rightarrow>
             (case handle_event pub (f_env (fs ! k)) evt w of
                (w', None) \<Rightarrow> (w', fs[k := (fs ! k)\<lparr>f_rest := events\<rparr>])
              | (w', Some err) \<Rightarrow>
                  (w'\<lparr>logged := logged w' @ [Log_error None err ''outbox tick failed'']\<rparr>,
                   fs[k := (fs ! k)\<lparr>f_rest := []\<rparr>])))
      else (w, fs))"

definition run_with ::
  "(outbox_event \<Rightarrow> bool promise) \<Rightarrow> move list \<Rightarrow> world \<Rightarrow> world \<times> firing list" where
  "run_with pub moves w = foldl (\<lambda>st m. move_with pub m st) (w, []) moves"

section \<open>Notions used in the statements\<close>

subsection \<open>Totals in exact arithmetic\<close>

text \<open>
  Rounding to two decimal places, half up, and the grand total of a list of
  (unit price, quantity) pairs as the rounded sum of the rounded line totals, both in
  exact rational arithmetic.
\<close>

definition half_up2 :: "rat \<Rightarrow> rat" where
  "half_up2 r = of_int \<lfloor>r * 100 + 1 / 2\<rfloor> / 100"

definition exact_grandTotal :: "(rat \<times> rat) list \<Rightarrow> rat" where
  "exact_grandTotal ps = half_up2 (sum_list (map (\<lambda>(u, q). half_up2 (u * q)) ps))"

text \<open>
  Modelled from the spec: the request validation (\<open>validation.js\<close>) is not among the
  sources. A valid body has at least one item, and every item has a finite unit
  price of at least 0 and a whole quantity of at least 1.
\<close>

fun valid_item :: "item \<Rightarrow> bool" where
  "valid_item i =
     (case (unitPrice i, quantity i) of
        (Fin u, Fin q) \<Rightarrow> 0 \<le> u \<and> 1 \<le> q \<and> of_int \<lfloor>q\<rfloor> = q
      | _ \<Rightarrow> False)"

definition valid_request :: "validated \<Rightarrow> bool" where
  "valid_request req \<longleftrightarrow> items req \<noteq> [] \<and> list_all valid_item (items req)"

subsection \<open>Outcomes\<close>

definition succeeded :: "outcome \<Rightarrow> bool" where
  "succeeded out = (case out of Response code _ \<Rightarrow> code = 201 | Unhandled _ \<Rightarrow> False)"

definition OrderCreationFailed :: outcome where
  "OrderCreationFailed = Response 500 (Error_body ''OrderCreationFailed'')"


text \<open>The steps inside the \<open>try\<close> block of \<open>POST /orders\<close>.\<close>

definition transaction_steps :: "step set" where
  "transaction_steps = {Order_create, OrderItem_insertMany, OutboxEvent_create, CommitTransaction}"

subsection \<open>Outbox records before and after\<close>

text \<open>A record that has left \<open>PENDING\<close> stays as it is; a record keeps its \<open>_id\<close>.\<close>

definition terminal_kept :: "outbox_event \<Rightarrow> outbox_event \<Rightarrow> bool" where
  "terminal_kept e e' \<longleftrightarrow> e_id e' = e_id e \<and> (if e_status e = PENDING then True else e' = e)"

text \<open>
  Two records that differ at most in \<open>status\<close> and \<open>lastError\<close>, and two records that differ
  at most in \<open>status\<close>, \<open>lastError\<close> and \<open>updatedAt\<close>.
\<close>

definition status_and_error_only :: "outbox_event \<Rightarrow> outbox_event \<Rightarrow> bool" where
  "status_and_error_only e e' \<longleftrightarrow>
     e'\<lparr>e_status := e_status e, e_lastError := e_lastError e\<rparr> = e"

definition relay_fields_only :: "outbox_event \<Rightarrow> outbox_event \<Rightarrow> bool" where
  "relay_fields_only e e' \<longleftrightarrow>
     e'\<lparr>e_status := e_status e, e_lastError := e_lastError e, e_updatedAt := e_updatedAt e\<rparr> = e"

definition pending :: "store \<Rightarrow> outbox_event list" where
  "pending s = filter (\<lambda>e. e_status e = PENDING) (outboxEvents s)"

text \<open>The record of the collection with a given \<open>_id\<close>.\<close>

definition event_by_id :: "objectId \<Rightarrow> store \<Rightarrow> outbox_event option" where
  "event_by_id i s = find (\<lambda>e. e_id e = i) (outboxEvents s)"

text \<open>
  What one pass of the loop body leaves in the record of an event when no write of the
  \<open>catch\<close> clause rejects.
\<close>

definition relayed :: "(outbox_event \<Rightarrow> bool promise) \<Rightarrow> tick_env \<Rightarrow> outbox_event \<Rightarrow> outbox_event" where
  "relayed pub env e =
     (case pub e of
        Rejected err \<Rightarrow>
          e\<lparr>e_status := FAILED, e_lastError := Some (error_string err),
            e_updatedAt := tick_clock env\<rparr>
      | Resolved _ \<Rightarrow>
          (case sent_fault env (e_id e) of
             Some err \<Rightarrow>
               e\<lparr>e_status := FAILED, e_lastError := Some (error_string err),
                 e_updatedAt := tick_clock env\<rparr>
           | None \<Rightarrow>
               e\<lparr>e_status := SENT, e_lastError := None, e_updatedAt := tick_clock env\<rparr>))"

text \<open>The log entry of that pass.\<close>

definition relay_log :: "(outbox_event \<Rightarrow> bool promise) \<Rightarrow> tick_env \<Rightarrow> outbox_event \<Rightarrow> log_entry" where
  "relay_log pub env e =
     (case pub e of
        Rejected err \<Rightarrow> Log_error (Some (toHexString (e_id e))) err ''outbox publish failed''
      | Resolved _ \<Rightarrow>
          (case sent_fault env (e_id e) of
             Some err \<Rightarrow> Log_error (Some (toHexString (e_id e))) err ''outbox publish failed''
           | None \<Rightarrow> Log_info (toHexString (e_id e)) ''outbox sent''))"

text \<open>
  The rejection with which the loop body of an event leaves the loop, if it does: the
  one of the write of its \<open>catch\<close> clause. The events of a batch that a tick gets through
  are those before the first event that leaves the loop.
\<close>

definition aborts :: "(outbox_event \<Rightarrow> bool promise) \<Rightarrow> tick_env \<Rightarrow> outbox_event \<Rightarrow> thrown option" where
  "aborts pub env e =
     (case pub e of
        Rejected err \<Rightarrow> failed_fault env (e_id e)
      | Resolved _ \<Rightarrow>
          (case sent_fault env (e_id e) of
             Some err \<Rightarrow> failed_fault env (e_id e)
           | None \<Rightarrow> None))"

definition processed ::
  "(outbox_event \<Rightarrow> bool promise) \<Rightarrow> tick_env \<Rightarrow> outbox_event list \<Rightarrow> outbox_event list" where
  "processed pub env evs = takeWhile (\<lambda>e. aborts pub env e = None) evs"

definition abort_error ::
  "(outbox_event \<Rightarrow> bool promise) \<Rightarrow> tick_env \<Rightarrow> outbox_event list \<Rightarrow> thrown option" where
  "abort_error pub env evs =
     (case dropWhile (\<lambda>e. aborts pub env e = None) evs of [] \<Rightarrow> None | e # _ \<Rightarrow> aborts pub env e)"

definition abort_log ::
  "(outbox_event \<Rightarrow> bool promise) \<Rightarrow> tick_env \<Rightarrow> outbox_event list \<Rightarrow> log_entry list" where
  "abort_log pub env evs =
     (case abort_error pub env evs of
        None \<Rightarrow> []
      | Some err \<Rightarrow> [Log_error None err ''outbox tick failed''])"

section \<open>Sample inputs\<close>

definition connection_lost :: thrown where
  "connection_lost = Error_obj ''MongoNetworkError'' ''connection closed''"

definition no_fault :: "step \<Rightarrow> thrown option" where
  "no_fault st = None"

definition fault_at :: "step \<Rightarrow> step \<Rightarrow> thrown option" where
  "fault_at st st' = (if st' = st then Some connection_lost else None)"

definition env_ok :: request_env where
  "env_ok = \<lparr>fault = no_fault, newId = ObjectId, clock = 1000\<rparr>"

definition env_fault :: "step \<Rightarrow> request_env" where
  "env_fault st = \<lparr>fault = fault_at st, newId = ObjectId, clock = 1000\<rparr>"

definition empty_world :: world where
  "empty_world =
     \<lparr>db = \<lparr>orders = [], orderItems = [], outboxEvents = []\<rparr>, published = [], logged = []\<rparr>"

text \<open>
  Two items at 10.00 times 3 and 5.50 times 2, and one item at 0.251 times 5; a unit
  price is the Number the decimal of the request body parses to.
\<close>

definition scenario_A :: validated where
  "scenario_A =
     \<lparr>customerId = ''c-1'', currency = ''INR'',
      items =
        [\<lparr>sku = ''A1'', name = ''Item A'', unitPrice = to_double 10, quantity = Fin 3\<rparr>,
         \<lparr>sku = ''B2'', name = ''Item B'', unitPrice = to_double (11 / 2), quantity = Fin 2\<rparr>]\<rparr>"

definition five_at_0251 :: validated where
  "five_at_0251 =
     \<lparr>customerId = ''c-1'', currency = ''INR'',
      items = [\<lparr>sku = ''A1'', name = ''Item A'', unitPrice = to_double (251 / 1000),
                quantity = Fin 5\<rparr>]\<rparr>"

text \<open>The string form of \<open>ObjectId 0\<close>, and the world after the first sample order.\<close>

definition id_0 :: string where
  "id_0 = ''000000000000000000000000''"


text \<open>
  Two pending events, the younger one stored first, and the environments of a tick: no
  fault; the query rejects; the write after the publish of the first event rejects; the
  write in the \<open>catch\<close> clause of the first event rejects. \<open>failing_publish\<close> is a publisher
  that always rejects.
\<close>

definition sample_payload :: payload where
  "sample_payload =
     \<lparr>p_orderId = id_0, p_customerId = ''c-1'', p_currency = ''INR'', p_grandTotal = Fin 0,
      p_items = []\<rparr>"

definition evt_1 :: outbox_event where
  "evt_1 =
     \<lparr>e_id = ObjectId 1, e_type = ''ORDER_CREATED'', e_aggregateId = id_0,
      e_payload = sample_payload, e_status = PENDING, e_lastError = None,
      e_createdAt = 10, e_updatedAt = 10\<rparr>"

definition evt_2 :: outbox_event where
  "evt_2 =
     \<lparr>e_id = ObjectId 2, e_type = ''ORDER_CREATED'', e_aggregateId = id_0,
      e_payload = sample_payload, e_status = PENDING, e_lastError = None,
      e_createdAt = 20, e_updatedAt = 20\<rparr>"

definition world_two :: world where
  "world_two =
     \<lparr>db = \<lparr>orders = [], orderItems = [], outboxEvents = [evt_2, evt_1]\<rparr>,
      published = [], logged = []\<rparr>"

definition never :: "objectId \<Rightarrow> thrown option" where
  "never i = None"

definition at_first :: "objectId \<Rightarrow> thrown option" where
  "at_first i = (if i = ObjectId 1 then Some connection_lost else None)"

definition tick_ok :: tick_env where
  "tick_ok = \<lparr>find_fault = None, sent_fault = never, failed_fault = never, tick_clock = 100\<rparr>"

definition tick_find_fault :: tick_env where
  "tick_find_fault =
     \<lparr>find_fault = Some connection_lost, sent_fault = never, failed_fault = never,
      tick_clock = 100\<rparr>"


definition tick_failed_fault :: tick_env where
  "tick_failed_fault =
     \<lparr>find_fault = None, sent_fault = never, failed_fault = at_first, tick_clock = 100\<rparr>"

definition broker_down :: thrown where
  "broker_down = Error_obj ''Error'' ''broker down''"

definition failing_publish :: "outbox_event \<Rightarrow> bool promise" where
  "failing_publish evt = Rejected broker_down"

text \<open>
  A third pending event; the environments in which both writes of the first event, and
  the write in the \<open>catch\<close> clause of the second event, reject; and a publisher that
  resolves to \<open>false\<close>.
\<close>

definition evt_3 :: outbox_event where
  "evt_3 =
     \<lparr>e_id = ObjectId 3, e_type = ''ORDER_CREATED'', e_aggregateId = id_0,
      e_payload = sample_payload, e_status = PENDING, e_lastError = None,
      e_createdAt = 30, e_updatedAt = 30\<rparr>"

definition world_three :: world where
  "world_three =
     \<lparr>db = \<lparr>orders = [], orderItems = [], outboxEvents = [evt_1, evt_2, evt_3]\<rparr>,
      published = [], logged = []\<rparr>"

definition at_second :: "objectId \<Rightarrow> thrown option" where
  "at_second i = (if i = ObjectId 2 then Some connection_lost else None)"

definition tick_both_fault :: tick_env where
  "tick_both_fault =
     \<lparr>find_fault = None, sent_fault = at_first, failed_fault = at_first, tick_clock = 100\<rparr>"

definition tick_second_failed_fault :: tick_env where
  "tick_second_failed_fault =
     \<lparr>find_fault = None, sent_fault = never, failed_fault = at_second, tick_clock = 100\<rparr>"

definition tick_late :: tick_env where
  "tick_late =
     \<lparr>find_fault = None, sent_fault = at_first, failed_fault = never, tick_clock = 300\<rparr>"

definition refusing_publish :: "outbox_event \<Rightarrow> bool promise" where
  "refusing_publish evt = Resolved False"

section \<open>Rounding to binary64\<close>

lemma pow2_pos: "0 < pow2 e"
  by (simp add: pow2_def)

lemma bitlen_eqI:
  assumes "0 < w" "2 ^ (nat w - 1) \<le> n" "n < 2 ^ nat w"
  shows "bitlen n = w"
proof -
  have "bitlen n \<le> w" using assms by (simp add: bitlen_le_iff_power)
  moreover have "w \<le> bitlen n" using assms by (simp add: bitlen_ge_iff_power)
  ultimately show ?thesis by simp
qed

lemma ilog2_eqI:
  assumes lo: "pow2 e \<le> x" and hi: "x < pow2 (e + 1)"
  shows "ilog2 x = e"
proof (cases "1 \<le> x")
  case True
  have e0: "0 \<le> e"
  proof (rule ccontr)
    assume "\<not> 0 \<le> e"
    then have "pow2 (e + 1) \<le> 1" by (simp add: pow2_def divide_le_eq_1)
    with hi True show False by simp
  qed
  let ?n = "\<lfloor>x\<rfloor>"
  have "(2::rat) ^ nat e \<le> x" using lo e0 by (simp add: pow2_def)
  then have "of_int (2 ^ nat e) \<le> x" by simp
  then have l: "2 ^ nat e \<le> ?n" by (simp only: le_floor_iff)
  have "x < (2::rat) ^ nat (e + 1)" using hi e0 by (simp add: pow2_def)
  then have "x < of_int (2 ^ nat (e + 1))" by simp
  then have u: "?n < 2 ^ nat (e + 1)" by (simp only: floor_less_iff)
  have "bitlen ?n = e + 1"
    using e0 l u by (intro bitlen_eqI) (simp_all add: nat_add_distrib)
  then show ?thesis using True by (simp add: ilog2_def)
next
  case False
  have xpos: "0 < x" using lo pow2_pos[of e] by simp
  have e0: "e < 0"
  proof (rule ccontr)
    assume "\<not> e < 0"
    then have "1 \<le> pow2 e" by (simp add: pow2_def)
    with lo False show False by simp
  qed
  define k where "k = nat (- e)"
  have k: "0 < k" "e = - int k" using e0 by (simp_all add: k_def)
  let ?c = "\<lceil>1 / x\<rceil>"
  have "1 / 2 ^ k \<le> x" using lo e0 k by (simp add: pow2_def)
  then have "1 / x \<le> 2 ^ k" using xpos
    by (simp add: field_simps)
  then have "1 / x \<le> of_int (2 ^ k)" by simp
  then have c_le: "?c \<le> 2 ^ k" by (simp only: ceiling_le_iff)
  have p1: "pow2 (e + 1) = 1 / 2 ^ (k - 1)"
    using k by (cases k) (simp_all add: pow2_def)
  have "x < 1 / 2 ^ (k - 1)" using hi p1 by simp
  then have "2 ^ (k - 1) < 1 / x" using xpos by (simp add: field_simps)
  then have "of_int (2 ^ (k - 1)) < 1 / x" by simp
  then have c_gt: "2 ^ (k - 1) < ?c" by (simp only: less_ceiling_iff)
  have "bitlen (?c - 1) = int k"
    using k c_le c_gt by (intro bitlen_eqI) simp_all
  then show ?thesis using False k by (simp add: ilog2_def)
qed

lemma round_even_nearest:
  assumes "\<bar>r - of_int m\<bar> < 1 / 2"
  shows "round_even r = m"
proof -
  have "\<lfloor>r\<rfloor> = m \<or> \<lfloor>r\<rfloor> = m - 1" using assms by linarith
  then show ?thesis
  proof
    assume f: "\<lfloor>r\<rfloor> = m"
    then have "r - of_int m < 1 / 2" using assms by linarith
    then show ?thesis using f by (simp add: round_even_def Let_def)
  next
    assume f: "\<lfloor>r\<rfloor> = m - 1"
    have "r < of_int m" using f by linarith
    then have "1 / 2 < r - of_int (m - 1)" using assms by simp
    then show ?thesis using f by (simp add: round_even_def Let_def)
  qed
qed

lemma to_double_nearest:
  assumes "pow2 e \<le> \<bar>x\<bar>" and "\<bar>x\<bar> < pow2 (e + 1)" and "- 1022 \<le> e"
    and "\<bar>x / pow2 (e - 52) - of_int m\<bar> < 1 / 2"
    and "\<bar>of_int m * pow2 (e - 52)\<bar> < pow2 1024"
  shows "to_double x = Fin (of_int m * pow2 (e - 52))"
proof -
  have "x \<noteq> 0" using assms(1) pow2_pos[of e] by auto
  moreover have "ilog2 \<bar>x\<bar> = e" using assms(1,2) by (rule ilog2_eqI)
  moreover have "round_even (x / pow2 (e - 52)) = m" using assms(4) by (rule round_even_nearest)
  ultimately show ?thesis using assms(3,5)
    by (simp add: to_double_def Let_def max_def)
qed



lemma round_even_of_int: "round_even (of_int k) = k"
  by (simp add: round_even_def)

lemma round_even_tie: "round_even (of_int f + 1 / 2) = (if even f then f else f + 1)"
proof -
  have "\<lfloor>(of_int f :: rat) + 1 / 2\<rfloor> = f" by linarith
  then show ?thesis by (simp add: round_even_def Let_def)
qed

lemma to_double_eqI:
  assumes "pow2 e \<le> \<bar>x\<bar>" and "\<bar>x\<bar> < pow2 (e + 1)" and "- 1022 \<le> e"
    and "round_even (x / pow2 (e - 52)) = m"
    and "\<bar>of_int m * pow2 (e - 52)\<bar> < pow2 1024"
  shows "to_double x = Fin (of_int m * pow2 (e - 52))"
proof -
  have "x \<noteq> 0" using assms(1) pow2_pos[of e] by auto
  moreover have "ilog2 \<bar>x\<bar> = e" using assms(1,2) by (rule ilog2_eqI)
  ultimately show ?thesis using assms(3,4,5)
    by (simp add: to_double_def Let_def max_def)
qed

lemma to_double_of_int:
  assumes "\<bar>n\<bar> < 2 ^ 53"
  shows "to_double (of_int n) = Fin (of_int n)"
proof (cases "n = 0")
  case True
  then show ?thesis by (simp add: to_double_def)
next
  case False
  define e where "e = bitlen \<bar>n\<bar> - 1"
  have npos: "0 < \<bar>n\<bar>" using False by simp
  have "1 \<le> bitlen \<bar>n\<bar>" using npos by (simp add: bitlen_ge_iff_power)
  then have e0: "0 \<le> e" by (simp add: e_def)
  have "bitlen \<bar>n\<bar> \<le> 53" using assms by (simp add: bitlen_le_iff_power)
  then have e52: "e \<le> 52" by (simp add: e_def)
  define k where "k = nat (52 - e)"
  have b: "2 ^ nat e \<le> \<bar>n\<bar> \<and> \<bar>n\<bar> < 2 ^ nat (e + 1)"
    using bitlen_bounds[OF npos] by (simp add: e_def)
  have lo: "pow2 e \<le> \<bar>of_int n\<bar>"
  proof -
    have "(of_int (2 ^ nat e) :: rat) \<le> of_int \<bar>n\<bar>" using b by (simp only: of_int_le_iff)
    then show ?thesis using e0 by (simp add: pow2_def)
  qed
  have hi: "\<bar>of_int n\<bar> < pow2 (e + 1)"
  proof -
    have "(of_int \<bar>n\<bar> :: rat) < of_int (2 ^ nat (e + 1))" using b by (simp only: of_int_less_iff)
    then show ?thesis using e0 by (simp add: pow2_def)
  qed
  have u: "pow2 (e - 52) = 1 / 2 ^ k"
    using e52 by (cases "e = 52") (simp_all add: pow2_def k_def)
  have r: "round_even (of_int n / pow2 (e - 52)) = n * 2 ^ k"
  proof -
    have "of_int n / pow2 (e - 52) = (of_int (n * 2 ^ k) :: rat)" by (simp add: u)
    then show ?thesis by (simp only: round_even_of_int)
  qed
  have y: "(of_int (n * 2 ^ k) :: rat) * pow2 (e - 52) = of_int n" by (simp add: u)
  have "(of_int \<bar>n\<bar> :: rat) < of_int (2 ^ 53)" using assms by (simp only: of_int_less_iff)
  then have "\<bar>of_int n :: rat\<bar> < 2 ^ 53" by simp
  also have "(2::rat) ^ 53 < pow2 1024" by (simp add: pow2_def)
  finally have small: "\<bar>of_int (n * 2 ^ k) * pow2 (e - 52)\<bar> < pow2 1024" by (simp only: y)
  have "to_double (of_int n) = Fin (of_int (n * 2 ^ k) * pow2 (e - 52))"
    using lo hi _ r small by (rule to_double_eqI) (use e0 in simp)
  then show ?thesis by (simp only: y)
qed

lemma to_double_numeral: "\<bar>numeral k :: int\<bar> < 2 ^ 53 \<Longrightarrow> to_double (numeral k) = Fin (numeral k)"
  using to_double_of_int[of "numeral k"] by simp

lemma Math_round_eqI:
  assumes "of_int m \<le> x + 1 / 2" and "x + 1 / 2 < of_int m + 1"
  shows "Math_round (Fin x) = Fin (of_int m)"
  using floor_unique[OF assms] by simp

lemma Math_round_of_int: "Math_round (Fin (of_int m)) = Fin (of_int m)"
  by (rule Math_round_eqI) simp_all


lemma to_double_251: "to_double (251 / 1000) = Fin (2260807012939989 / 9007199254740992)"
  using to_double_nearest[of "-2" "251/1000" 4521614025879978]
  by (simp add: pow2_def)

lemma to_double_11_2: "to_double (11 / 2) = Fin (11 / 2)"
  using to_double_nearest[of 2 "11 / 2" 6192449487634432]
  by (simp add: pow2_def)

lemma to_double_5_4: "to_double (5 / 4) = Fin (5 / 4)"
  using to_double_nearest[of 0 "5 / 4" 5629499534213120]
  by (simp add: pow2_def)

lemma to_double_63_50: "to_double (63 / 50) = Fin (5674535530486825 / 4503599627370496)"
  using to_double_nearest[of 0 "63 / 50" 5674535530486825]
  by (simp add: pow2_def)

lemma times_251_5:
  "js_times (Fin (2260807012939989 / 9007199254740992)) (Fin 5) =
   Fin (1413004383087493 / 1125899906842624)"
  using to_double_eqI[of 0 "2260807012939989 / 9007199254740992 * 5" 5652017532349972]
    round_even_tie[of 5652017532349972]
  by (simp add: pow2_def)

lemma times_1255_100:
  "js_times (Fin (1413004383087493 / 1125899906842624)) (Fin 100) =
   Fin (8831277394296831 / 70368744177664)"
  using to_double_nearest[of 6 "1413004383087493 / 1125899906842624 * 100" 8831277394296831]
  by (simp add: pow2_def)

lemma round_1255: "Math_round (Fin (8831277394296831 / 70368744177664)) = Fin 125"
  using Math_round_eqI[of 125 "8831277394296831 / 70368744177664"] by simp

lemma Math_round_numeral: "Math_round (Fin (numeral k)) = Fin (numeral k)"
  using Math_round_of_int[of "numeral k"] by simp

lemma divide_125_100: "js_divide (Fin 125) (Fin 100) = Fin (5 / 4)"
  by (simp add: to_double_5_4)

lemma round2_0251_5:
  "round2 (js_times (to_double (251 / 1000)) (Fin 5)) = Fin (5 / 4)"
  by (simp only: round2_def to_double_251 times_251_5 times_1255_100 round_1255 divide_125_100)

lemma round2_of_int:
  assumes "\<bar>n * 100\<bar> < 2 ^ 53"
  shows "round2 (Fin (of_int n)) = Fin (of_int n)"
proof -
  have n: "\<bar>n\<bar> < 2 ^ 53" using assms by linarith
  have "js_times (Fin (of_int n)) (Fin 100) = to_double (of_int (n * 100))" by simp
  also have "\<dots> = Fin (of_int (n * 100))" using assms by (rule to_double_of_int)
  finally have 1: "js_times (Fin (of_int n)) (Fin 100) = Fin (of_int (n * 100))" .
  have "js_divide (Fin (of_int (n * 100))) (Fin 100) = to_double (of_int n)" by simp
  also have "\<dots> = Fin (of_int n)" using n by (rule to_double_of_int)
  finally have 2: "js_divide (Fin (of_int (n * 100))) (Fin 100) = Fin (of_int n)" .
  show ?thesis by (simp only: round2_def 1 Math_round_of_int 2)
qed

lemma times_125_100: "js_times (Fin (5 / 4)) (Fin 100) = Fin 125"
  by (simp add: to_double_numeral)

lemma round2_5_4: "round2 (Fin (5 / 4)) = Fin (5 / 4)"
  by (simp only: round2_def times_125_100 Math_round_numeral divide_125_100)

lemma plus_0_5_4: "js_plus (Fin 0) (Fin (5 / 4)) = Fin (5 / 4)"
  by (simp add: to_double_5_4)

lemma grandTotal_fold:
  "grandTotal iwt = round2 (foldl js_plus (Fin 0) (map lineTotal iwt))"
  by (simp add: grandTotal_def foldl_map)

lemma lineTotals_five_at_0251:
  "map lineTotal (itemsWithTotals (items five_at_0251)) = [Fin (5 / 4)]"
  by (simp add: five_at_0251_def itemsWithTotals_def with_total_def round2_0251_5)

lemma grandTotal_five_at_0251:
  "grandTotal (itemsWithTotals (items five_at_0251)) = Fin (5 / 4)"
  by (simp only: grandTotal_fold lineTotals_five_at_0251 foldl.simps plus_0_5_4 round2_5_4)

lemma round2_30: "round2 (Fin 30) = Fin 30"
  using round2_of_int[of 30] by simp

lemma round2_11: "round2 (Fin 11) = Fin 11"
  using round2_of_int[of 11] by simp

lemma round2_41: "round2 (Fin 41) = Fin 41"
  using round2_of_int[of 41] by simp

lemma times_10_3: "js_times (to_double 10) (Fin 3) = Fin 30"
  by (simp add: to_double_numeral)

lemma times_11_2: "js_times (to_double (11 / 2)) (Fin 2) = Fin 11"
  by (simp add: to_double_numeral to_double_11_2)

lemma lineTotals_scenario_A:
  "map lineTotal (itemsWithTotals (items scenario_A)) = [Fin 30, Fin 11]"
  by (simp add: scenario_A_def itemsWithTotals_def with_total_def times_10_3 times_11_2
      round2_30 round2_11)

lemma plus_scenario_A: "js_plus (js_plus (Fin 0) (Fin 30)) (Fin 11) = Fin 41"
  by (simp add: to_double_numeral)

lemma grandTotal_scenario_A:
  "grandTotal (itemsWithTotals (items scenario_A)) = Fin 41"
  by (simp only: grandTotal_fold lineTotals_scenario_A foldl.simps plus_scenario_A round2_41)

lemma exact_five_at_0251:
  "exact_grandTotal [(251 / 1000, 5)] = 63 / 50"
  "exact_grandTotal [(2260807012939989 / 9007199254740992, 5)] = 63 / 50"
  using floor_unique[of 126 "251 / 1000 * 5 * 100 + 1 / 2 :: rat"]
    floor_unique[of 126 "2260807012939989 / 9007199254740992 * 5 * 100 + 1 / 2 :: rat"]
    floor_unique[of 126 "63 / 50 * 100 + 1 / 2 :: rat"]
  by (simp_all add: exact_grandTotal_def half_up2_def)

section \<open>Order creation\<close>

lemma Order_create_op_Inr:
  "Order_create_op env d s = Inr s1 \<Longrightarrow> s1 = s\<lparr>orders := orders s @ [d]\<rparr>"
  by (simp add: Order_create_op_def split: if_splits option.splits)

lemma OrderItem_insertMany_op_Inr:
  "OrderItem_insertMany_op env ds s = Inr s1 \<Longrightarrow> s1 = s\<lparr>orderItems := orderItems s @ ds\<rparr>"
  by (simp add: OrderItem_insertMany_op_def split: if_splits option.splits)

lemma OutboxEvent_create_op_Inr:
  "OutboxEvent_create_op env d s = Inr s1 \<Longrightarrow> s1 = s\<lparr>outboxEvents := outboxEvents s @ [d]\<rparr>"
  by (simp add: OutboxEvent_create_op_def split: if_splits option.splits)

lemma Order_create_op_fault:
  "Order_create_op env d s = Inr s1 \<Longrightarrow> fault env Order_create = None"
  by (simp add: Order_create_op_def split: if_splits option.splits)

lemma OrderItem_insertMany_op_fault:
  "OrderItem_insertMany_op env ds s = Inr s1 \<Longrightarrow> fault env OrderItem_insertMany = None"
  by (simp add: OrderItem_insertMany_op_def split: if_splits option.splits)

lemma OutboxEvent_create_op_fault:
  "OutboxEvent_create_op env d s = Inr s1 \<Longrightarrow> fault env OutboxEvent_create = None"
  by (simp add: OutboxEvent_create_op_def split: if_splits option.splits)

lemma transaction_Inr:
  assumes "transaction env req s = Inr (s', oid)"
  shows "oid = newId env 0 \<and>
         s' = s\<lparr>orders := orders s @ [order_doc env req],
                orderItems := orderItems s @ itemsDocs env (newId env 0) (itemsWithTotals (items req)),
                outboxEvents := outboxEvents s @ [outbox_doc env req (newId env 0)]\<rparr>"
proof -
  have oid0: "o_id (order_doc env req) = newId env 0"
    by (simp add: order_doc_def Let_def)
  from assms obtain s1 where 1: "Order_create_op env (order_doc env req) s = Inr s1"
    by (cases "Order_create_op env (order_doc env req) s") (simp_all add: transaction_def)
  from assms 1 obtain s2 where
    2: "OrderItem_insertMany_op env (itemsDocs env (newId env 0) (itemsWithTotals (items req))) s1 = Inr s2"
    by (cases "OrderItem_insertMany_op env (itemsDocs env (newId env 0) (itemsWithTotals (items req))) s1")
      (simp_all add: transaction_def oid0)
  from assms 1 2 obtain s3 where
    3: "OutboxEvent_create_op env (outbox_doc env req (newId env 0)) s2 = Inr s3"
    by (cases "OutboxEvent_create_op env (outbox_doc env req (newId env 0)) s2")
      (simp_all add: transaction_def oid0)
  from assms 1 2 3 have 4: "s' = s3" "oid = newId env 0"
    by (simp_all add: transaction_def oid0 split: option.splits)
  show ?thesis
    using Order_create_op_Inr[OF 1] OrderItem_insertMany_op_Inr[OF 2]
      OutboxEvent_create_op_Inr[OF 3] 4 by simp
qed

lemma transaction_fault:
  assumes "st \<in> transaction_steps" and "fault env st = Some err"
  shows "\<exists>err'. transaction env req s = Inl err'"
proof (cases "Order_create_op env (order_doc env req) s")
  case (Inl e)
  then show ?thesis by (simp add: transaction_def)
next
  case 1: (Inr s1)
  have n1: "st \<noteq> Order_create"
    using Order_create_op_fault[OF 1] assms(2) by auto
  show ?thesis
  proof (cases "OrderItem_insertMany_op env
                  (itemsDocs env (o_id (order_doc env req)) (itemsWithTotals (items req))) s1")
    case (Inl e)
    then show ?thesis using 1 by (simp add: transaction_def)
  next
    case 2: (Inr s2)
    have n2: "st \<noteq> OrderItem_insertMany"
      using OrderItem_insertMany_op_fault[OF 2] assms(2) by auto
    show ?thesis
    proof (cases "OutboxEvent_create_op env (outbox_doc env req (o_id (order_doc env req))) s2")
      case (Inl e)
      then show ?thesis using 1 2 by (simp add: transaction_def)
    next
      case 3: (Inr s3)
      have n3: "st \<noteq> OutboxEvent_create"
        using OutboxEvent_create_op_fault[OF 3] assms(2) by auto
      have "st = CommitTransaction"
        using assms(1) n1 n2 n3 by (simp add: transaction_steps_def)
      then show ?thesis using 1 2 3 assms(2) by (simp add: transaction_def)
    qed
  qed
qed

lemma post_orders_cases:
  "post_orders env req w =
     (case fault env StartSession of
        Some err \<Rightarrow> (Unhandled err, w)
      | None \<Rightarrow>
         (case transaction env req (db w) of
            Inl err \<Rightarrow> (OrderCreationFailed,
                        w\<lparr>logged := logged w @ [Log_error None err ''order creation failed'']\<rparr>)
          | Inr (s, oid) \<Rightarrow>
              (Response 201 (Created oid (grandTotal (itemsWithTotals (items req))) (currency req) CONFIRMED),
               w\<lparr>db := s, logged := logged w @ [Log_info (toHexString oid) ''order created'']\<rparr>)))"
  by (simp add: post_orders_def OrderCreationFailed_def split: option.splits sum.splits)

lemma length_itemsDocs: "length (itemsDocs env oid iwt) = length iwt"
  by (simp add: itemsDocs_def)

lemma itemsDocs_orderId: "list_all (\<lambda>i. oi_orderId i = oid) (itemsDocs env oid iwt)"
  by (auto simp: itemsDocs_def list_all_iff)

text \<open>
  C1. Order creation is all or nothing: when the handler does not answer 201 (it answers
  500, or its promise rejects) the database is as before; when it answers 201 the Order,
  one OrderItem for each item of the request, each pointing to the Order, and the
  OutboxEvent of the Order have all been added, and nothing else has changed.
\<close>

theorem C1_atomicity:
  assumes "post_orders env req w = (out, w')"
  shows "if succeeded out
         then \<exists>ord its evt.
                out = Response 201 (Created (o_id ord) (o_grandTotal ord) (o_currency ord) (o_status ord)) \<and>
                orders (db w') = orders (db w) @ [ord] \<and>
                orderItems (db w') = orderItems (db w) @ its \<and>
                outboxEvents (db w') = outboxEvents (db w) @ [evt] \<and>
                length its = length (items req) \<and>
                list_all (\<lambda>i. oi_orderId i = o_id ord) its \<and>
                e_aggregateId evt = toHexString (o_id ord)
         else db w' = db w"
proof (cases "fault env StartSession")
  case (Some err)
  then show ?thesis using assms by (auto simp: post_orders_cases succeeded_def)
next
  case None
  show ?thesis
  proof (cases "transaction env req (db w)")
    case (Inl err)
    then show ?thesis using assms None
      by (auto simp: post_orders_cases succeeded_def OrderCreationFailed_def)
  next
    case (Inr r)
    obtain s oid where r: "r = (s, oid)" by (cases r)
    note t = transaction_Inr[OF Inr[unfolded r]]
    have out: "out = Response 201 (Created oid (grandTotal (itemsWithTotals (items req))) (currency req) CONFIRMED)"
      and w': "db w' = s"
      using assms None Inr r by (auto simp: post_orders_cases)
    have "succeeded out" by (simp add: out succeeded_def)
    moreover have "out = Response 201 (Created (o_id (order_doc env req)) (o_grandTotal (order_doc env req))
            (o_currency (order_doc env req)) (o_status (order_doc env req)))"
      using t by (simp add: out order_doc_def Let_def)
    moreover have "orders (db w') = orders (db w) @ [order_doc env req]"
      using t by (simp add: w')
    moreover have "orderItems (db w') = orderItems (db w) @ itemsDocs env (o_id (order_doc env req)) (itemsWithTotals (items req))"
      using t by (simp add: w' order_doc_def Let_def)
    moreover have "outboxEvents (db w') = outboxEvents (db w) @ [outbox_doc env req (o_id (order_doc env req))]"
      using t by (simp add: w' order_doc_def Let_def)
    moreover have "length (itemsDocs env (o_id (order_doc env req)) (itemsWithTotals (items req))) = length (items req)"
      by (simp add: length_itemsDocs itemsWithTotals_def)
    moreover have "e_aggregateId (outbox_doc env req (o_id (order_doc env req))) = toHexString (o_id (order_doc env req))"
      by (simp add: outbox_doc_def Let_def)
    ultimately show ?thesis using itemsDocs_orderId by (simp only: if_True) blast
  qed
qed

text \<open>
  C2. A successful order creation adds exactly one OutboxEvent: its type is
  \<open>ORDER_CREATED\<close>, its aggregate id is the string form of the id of the created Order, and
  its payload holds that id, the customer id, the currency, the grand total and the full
  list of items with their line totals.
\<close>

theorem C2_outbox_event:
  assumes "post_orders env req w = (out, w')" and "succeeded out"
  shows "\<exists>oid evt.
           out = Response 201 (Created oid (grandTotal (itemsWithTotals (items req))) (currency req) CONFIRMED) \<and>
           oid \<in> o_id ` set (orders (db w')) \<and>
           outboxEvents (db w') = outboxEvents (db w) @ [evt] \<and>
           e_type evt = ''ORDER_CREATED'' \<and>
           e_aggregateId evt = toHexString oid \<and>
           e_status evt = PENDING \<and>
           e_payload evt =
             \<lparr>p_orderId = toHexString oid, p_customerId = customerId req, p_currency = currency req,
              p_grandTotal = grandTotal (itemsWithTotals (items req)),
              p_items = itemsWithTotals (items req)\<rparr> \<and>
           map item.truncate (itemsWithTotals (items req)) = items req"
proof -
  from assms obtain s oid where
    t: "transaction env req (db w) = Inr (s, oid)" and
    out: "out = Response 201 (Created oid (grandTotal (itemsWithTotals (items req))) (currency req) CONFIRMED)" and
    w': "db w' = s"
    by (auto simp: post_orders_cases succeeded_def OrderCreationFailed_def
        split: option.splits sum.splits)
  note r = transaction_Inr[OF t]
  have tr: "map item.truncate (itemsWithTotals (items req)) = items req"
    by (induction "items req" arbitrary: req)
      (auto simp: itemsWithTotals_def with_total_def item.truncate_def map_idI)
  have "oid \<in> o_id ` set (orders (db w'))"
    using r by (simp add: w' order_doc_def Let_def)
  moreover have "outboxEvents (db w') = outboxEvents (db w) @ [outbox_doc env req oid]"
    using r by (simp add: w')
  ultimately show ?thesis using out tr
    by (intro exI[of _ oid] exI[of _ "outbox_doc env req oid"]) (simp add: outbox_doc_def Let_def)
qed

text \<open>
  Once the session is open, whatever the transaction throws is answered with the one
  constant response and goes to the log itself; a rejecting step inside the transaction
  makes the transaction throw.
\<close>

lemma post_orders_opaque_failure:
  assumes "fault env StartSession = None"
  shows "(\<forall>err. transaction env req (db w) = Inl err \<longrightarrow>
            post_orders env req w =
              (OrderCreationFailed,
               w\<lparr>logged := logged w @ [Log_error None err ''order creation failed'']\<rparr>)) \<and>
         (\<forall>st \<in> transaction_steps. fault env st \<noteq> None \<longrightarrow>
            (\<exists>err. transaction env req (db w) = Inl err)) \<and>
         (succeeded (fst (post_orders env req w)) \<or> fst (post_orders env req w) = OrderCreationFailed)"
proof (intro conjI ballI allI impI)
  fix err assume "transaction env req (db w) = Inl err"
  then show "post_orders env req w =
              (OrderCreationFailed,
               w\<lparr>logged := logged w @ [Log_error None err ''order creation failed'']\<rparr>)"
    using assms by (simp add: post_orders_cases)
next
  fix st assume "st \<in> transaction_steps" "fault env st \<noteq> None"
  then show "\<exists>err. transaction env req (db w) = Inl err"
    using transaction_fault[of st env _ req "db w"] by auto
next
  show "succeeded (fst (post_orders env req w)) \<or> fst (post_orders env req w) = OrderCreationFailed"
    using assms by (auto simp: post_orders_cases succeeded_def split: sum.splits)
qed

section \<open>Order creation on sample requests\<close>

lemma itemsWithTotals_scenario_A:
  "itemsWithTotals (items scenario_A) =
     [\<lparr>sku = ''A1'', name = ''Item A'', unitPrice = Fin 10, quantity = Fin 3, lineTotal = Fin 30\<rparr>,
      \<lparr>sku = ''B2'', name = ''Item B'', unitPrice = Fin (11 / 2), quantity = Fin 2, lineTotal = Fin 11\<rparr>]"
  using times_10_3 times_11_2
  by (simp add: scenario_A_def itemsWithTotals_def with_total_def to_double_numeral
      to_double_11_2 round2_30 round2_11)

lemma length_hex_digits: "length (hex_digits k n) = k"
  by (induction k arbitrary: n) simp_all

lemma length_toHexString: "length (toHexString i) = 24"
  by (cases i) (simp add: toHexString_def length_hex_digits del: hex_digits.simps)

lemma toHexString_nonempty: "toHexString i \<noteq> []"
  using length_toHexString[of i] by (cases "toHexString i") simp_all

lemmas grandTotal_scenario_A_list = grandTotal_scenario_A[unfolded itemsWithTotals_scenario_A]

lemma transaction_scenario_A:
  "\<exists>s. transaction env_ok scenario_A (db empty_world) = Inr (s, ObjectId 0)"
  by (simp add: transaction_def Order_create_op_def OrderItem_insertMany_op_def
      OutboxEvent_create_op_def order_doc_def outbox_doc_def itemsDocs_def Let_def
      itemsWithTotals_scenario_A grandTotal_scenario_A_list valid_order_def valid_order_item_def
      valid_outbox_event_def env_ok_def no_fault_def empty_world_def toHexString_nonempty
      scenario_A_def[THEN arg_cong[of _ _ customerId]] scenario_A_def[THEN arg_cong[of _ _ currency]])

lemma succeeded_scenario_A:
  "succeeded (fst (post_orders env_ok scenario_A empty_world))"
  using transaction_scenario_A
  by (auto simp: post_orders_cases succeeded_def env_ok_def no_fault_def)

lemma failed_env_fault:
  assumes "st \<in> transaction_steps"
  shows "fst (post_orders (env_fault st) req w) = OrderCreationFailed"
proof -
  have "fault (env_fault st) st = Some connection_lost"
    by (simp add: env_fault_def fault_at_def)
  from transaction_fault[OF assms this] obtain err where
    "transaction (env_fault st) req (db w) = Inl err" by blast
  moreover have "fault (env_fault st) StartSession = None"
    using assms by (auto simp: env_fault_def fault_at_def transaction_steps_def)
  ultimately show ?thesis by (simp add: post_orders_cases)
qed

theorem C1_atomicity_witness:
  "(\<exists>ord its evt.
      fst (post_orders env_ok scenario_A empty_world) =
        Response 201 (Created (o_id ord) (o_grandTotal ord) (o_currency ord) (o_status ord)) \<and>
      orders (db (snd (post_orders env_ok scenario_A empty_world))) = orders (db empty_world) @ [ord] \<and>
      orderItems (db (snd (post_orders env_ok scenario_A empty_world))) = orderItems (db empty_world) @ its \<and>
      outboxEvents (db (snd (post_orders env_ok scenario_A empty_world))) = outboxEvents (db empty_world) @ [evt] \<and>
      length its = length (items scenario_A) \<and>
      list_all (\<lambda>i. oi_orderId i = o_id ord) its \<and>
      e_aggregateId evt = toHexString (o_id ord)) \<and>
   db (snd (post_orders (env_fault OrderItem_insertMany) scenario_A empty_world)) = db empty_world"
proof -
  have "\<not> succeeded (fst (post_orders (env_fault OrderItem_insertMany) scenario_A empty_world))"
    using failed_env_fault[of OrderItem_insertMany scenario_A empty_world]
    by (simp add: transaction_steps_def succeeded_def OrderCreationFailed_def)
  then show ?thesis
    using C1_atomicity[of env_ok scenario_A empty_world
        "fst (post_orders env_ok scenario_A empty_world)"
        "snd (post_orders env_ok scenario_A empty_world)"]
      C1_atomicity[of "env_fault OrderItem_insertMany" scenario_A empty_world
        "fst (post_orders (env_fault OrderItem_insertMany) scenario_A empty_world)"
        "snd (post_orders (env_fault OrderItem_insertMany) scenario_A empty_world)"]
      succeeded_scenario_A
    by simp
qed


theorem C2_outbox_event_witness:
  "\<exists>oid evt.
     fst (post_orders env_ok scenario_A empty_world) =
       Response 201 (Created oid (grandTotal (itemsWithTotals (items scenario_A)))
         (currency scenario_A) CONFIRMED) \<and>
     oid \<in> o_id ` set (orders (db (snd (post_orders env_ok scenario_A empty_world)))) \<and>
     outboxEvents (db (snd (post_orders env_ok scenario_A empty_world))) =
       outboxEvents (db empty_world) @ [evt] \<and>
     e_type evt = ''ORDER_CREATED'' \<and>
     e_aggregateId evt = toHexString oid \<and>
     e_status evt = PENDING \<and>
     e_payload evt =
       \<lparr>p_orderId = toHexString oid, p_customerId = customerId scenario_A,
        p_currency = currency scenario_A,
        p_grandTotal = grandTotal (itemsWithTotals (items scenario_A)),
        p_items = itemsWithTotals (items scenario_A)\<rparr> \<and>
     map item.truncate (itemsWithTotals (items scenario_A)) = items scenario_A"
  using C2_outbox_event[of env_ok scenario_A empty_world
      "fst (post_orders env_ok scenario_A empty_world)"
      "snd (post_orders env_ok scenario_A empty_world)"]
    succeeded_scenario_A
  by simp

text \<open>
  C7. Whenever a step of an order creation fails, the caller gets the one opaque signal
  \<open>OrderCreationFailed\<close>, 500 with the body \<open>{error: "OrderCreationFailed"}\<close>, and not the
  cause. The handler does so for every failure inside its \<open>try\<close> block, but it opens the
  session before that block: when \<open>startSession\<close> rejects, the promise of the handler
  rejects with the cause, nothing is logged and no response is sent.
\<close>

theorem C7_session_failure_unhandled:
  "fault (env_fault StartSession) StartSession = Some connection_lost \<and>
   post_orders (env_fault StartSession) scenario_A empty_world =
     (Unhandled connection_lost, empty_world) \<and>
   fst (post_orders (env_fault StartSession) scenario_A empty_world) \<noteq> OrderCreationFailed \<and>
   post_orders (env_fault CommitTransaction) scenario_A empty_world =
     (OrderCreationFailed,
      empty_world\<lparr>logged := [Log_error None connection_lost ''order creation failed'']\<rparr>)"
proof -
  have 1: "post_orders (env_fault StartSession) scenario_A empty_world =
     (Unhandled connection_lost, empty_world)"
    by (simp add: post_orders_cases env_fault_def fault_at_def)
  from transaction_scenario_A obtain s where
    t: "transaction env_ok scenario_A (db empty_world) = Inr (s, ObjectId 0)" ..
  have n: "fault (env_fault CommitTransaction) StartSession = None"
    by (simp add: env_fault_def fault_at_def)
  have c: "transaction (env_fault CommitTransaction) scenario_A (db empty_world) =
             Inl connection_lost"
    by (simp add: transaction_def Order_create_op_def OrderItem_insertMany_op_def
      OutboxEvent_create_op_def order_doc_def outbox_doc_def itemsDocs_def Let_def
      itemsWithTotals_scenario_A grandTotal_scenario_A_list valid_order_def valid_order_item_def
      valid_outbox_event_def env_fault_def fault_at_def empty_world_def toHexString_nonempty
      scenario_A_def[THEN arg_cong[of _ _ customerId]] scenario_A_def[THEN arg_cong[of _ _ currency]])
  have l: "logged empty_world = []" by (simp add: empty_world_def)
  have 2: "post_orders (env_fault CommitTransaction) scenario_A empty_world =
     (OrderCreationFailed,
      empty_world\<lparr>logged := [Log_error None connection_lost ''order creation failed'']\<rparr>)"
    using post_orders_opaque_failure[OF n, of scenario_A empty_world] c l by simp
  show ?thesis
    using 1 2 by (simp add: env_fault_def fault_at_def OrderCreationFailed_def)
qed

lemma itemsWithTotals_five_at_0251:
  "itemsWithTotals (items five_at_0251) =
     [\<lparr>sku = ''A1'', name = ''Item A'',
       unitPrice = Fin (2260807012939989 / 9007199254740992), quantity = Fin 5,
       lineTotal = Fin (5 / 4)\<rparr>]"
  using round2_0251_5
  by (simp add: five_at_0251_def itemsWithTotals_def with_total_def to_double_251)

lemmas grandTotal_five_at_0251_list = grandTotal_five_at_0251[unfolded itemsWithTotals_five_at_0251]

lemma transaction_five_at_0251:
  "\<exists>s. transaction env_ok five_at_0251 (db empty_world) = Inr (s, ObjectId 0) \<and>
       map o_grandTotal (orders s) = [Fin (5 / 4)]"
  by (simp add: transaction_def Order_create_op_def OrderItem_insertMany_op_def
      OutboxEvent_create_op_def order_doc_def outbox_doc_def itemsDocs_def Let_def
      itemsWithTotals_five_at_0251 grandTotal_five_at_0251_list valid_order_def
      valid_order_item_def valid_outbox_event_def env_ok_def no_fault_def empty_world_def
      toHexString_nonempty
      five_at_0251_def[THEN arg_cong[of _ _ customerId]]
      five_at_0251_def[THEN arg_cong[of _ _ currency]])

lemma valid_five_at_0251: "valid_request five_at_0251"
  using floor_unique[of 5 "5 :: rat"]
  by (simp add: valid_request_def five_at_0251_def to_double_251)

text \<open>
  Scenario A of the specification: the items 10.00 times 3 and 5.50 times 2 give the
  grand total 41.
\<close>

lemma scenario_A_response:
  "fst (post_orders env_ok scenario_A empty_world) =
     Response 201 (Created (ObjectId 0) (Fin 41) ''INR'' CONFIRMED)"
proof -
  from transaction_scenario_A obtain s where
    "transaction env_ok scenario_A (db empty_world) = Inr (s, ObjectId 0)" ..
  moreover have "fault env_ok StartSession = None" by (simp add: env_ok_def no_fault_def)
  moreover have "currency scenario_A = ''INR''" by (simp add: scenario_A_def)
  ultimately show ?thesis by (simp add: post_orders_cases grandTotal_scenario_A)
qed

text \<open>
  C3. For every valid request the returned and stored grand total is the sum of the line
  totals, each the product of unit price and quantity rounded half up to two decimal
  places, rounded half up to two decimal places again. The handler rounds with
  \<open>Math.round(x * 100) / 100\<close> on binary floating-point Numbers instead: for one item at
  0.251 times 5 the exact product is 1.255 and the claimed total 1.26, with the unit price
  read as the decimal of the request or as the Number it parses to, while the handler
  returns and stores 1.25.
\<close>

theorem C3_rounding_divergence:
  "valid_request five_at_0251 \<and>
   map unitPrice (items five_at_0251) = [Fin (2260807012939989 / 9007199254740992)] \<and>
   fst (post_orders env_ok five_at_0251 empty_world) =
     Response 201 (Created (ObjectId 0) (Fin (5 / 4)) ''INR'' CONFIRMED) \<and>
   map o_grandTotal (orders (db (snd (post_orders env_ok five_at_0251 empty_world)))) =
     [Fin (5 / 4)] \<and>
   exact_grandTotal [(251 / 1000, 5)] = 63 / 50 \<and>
   exact_grandTotal [(2260807012939989 / 9007199254740992, 5)] = 63 / 50 \<and>
   to_double (63 / 50) \<noteq> Fin (5 / 4)"
proof -
  from transaction_five_at_0251 obtain s where
    t: "transaction env_ok five_at_0251 (db empty_world) = Inr (s, ObjectId 0)"
    and g: "map o_grandTotal (orders s) = [Fin (5 / 4)]" by (elim exE conjE)
  have nf: "fault env_ok StartSession = None" by (simp add: env_ok_def no_fault_def)
  have cur: "currency five_at_0251 = ''INR''" by (simp add: five_at_0251_def)
  have "fst (post_orders env_ok five_at_0251 empty_world) =
     Response 201 (Created (ObjectId 0) (Fin (5 / 4)) ''INR'' CONFIRMED)"
    using t nf cur by (simp add: post_orders_cases grandTotal_five_at_0251)
  moreover have "map o_grandTotal (orders (db (snd (post_orders env_ok five_at_0251 empty_world)))) =
     [Fin (5 / 4)]"
    using t nf g by (simp add: post_orders_cases)
  moreover have "map unitPrice (items five_at_0251) = [Fin (2260807012939989 / 9007199254740992)]"
    by (simp add: five_at_0251_def to_double_251)
  moreover have "to_double (63 / 50) \<noteq> Fin (5 / 4)"
    by (simp add: to_double_63_50)
  ultimately show ?thesis
    using valid_five_at_0251 exact_five_at_0251 by simp
qed

section \<open>Reading an order\<close>











section \<open>The writes of the worker\<close>

subsection \<open>Updating the first match\<close>

lemma updateFirst_rel:
  assumes "\<And>x. R x x" and "\<And>x. x \<in> set xs \<Longrightarrow> p x \<Longrightarrow> R x (f x)"
  shows "list_all2 R xs (updateFirst p f xs)"
  using assms(2)
proof (induction xs)
  case Nil
  then show ?case by simp
next
  case (Cons x xs)
  then show ?case by (simp add: assms(1) list_all2_refl)
qed

lemma updateFirst_set:
  "y \<in> set (updateFirst p f xs) \<Longrightarrow> y \<in> set xs \<or> (\<exists>x \<in> set xs. p x \<and> y = f x)"
  by (induction xs) (auto split: if_splits)

lemma updateFirst_unique:
  assumes "distinct xs" and "\<And>x y. x \<in> set xs \<Longrightarrow> y \<in> set xs \<Longrightarrow> p x \<Longrightarrow> p y \<Longrightarrow> x = y"
  shows "updateFirst p f xs = map (\<lambda>x. if p x then f x else x) xs"
  using assms
proof (induction xs)
  case Nil
  then show ?case by simp
next
  case (Cons x xs)
  show ?case
  proof (cases "p x")
    case True
    have "\<And>y. y \<in> set xs \<Longrightarrow> \<not> p y"
    proof
      fix y assume y: "y \<in> set xs" and "p y"
      then have "x = y" using Cons.prems(2)[of x y] True by simp
      then show False using y Cons.prems(1) by simp
    qed
    then have "map (\<lambda>x. if p x then f x else x) xs = xs" by (simp add: map_idI)
    then show ?thesis using True by simp
  next
    case False
    have "updateFirst p f xs = map (\<lambda>x. if p x then f x else x) xs"
      using Cons.prems by (intro Cons.IH) auto
    then show ?thesis using False by simp
  qed
qed

lemma updateFirst_by_key:
  assumes "distinct (map key xs)"
  shows "updateFirst (\<lambda>x. key x = k \<and> q x) f xs = map (\<lambda>x. if key x = k \<and> q x then f x else x) xs"
proof (rule updateFirst_unique)
  show "distinct xs" using assms by (simp add: distinct_map)
next
  fix x y assume "x \<in> set xs" "y \<in> set xs" "key x = k \<and> q x" "key y = k \<and> q y"
  then show "x = y" using assms by (auto simp: distinct_map dest: inj_onD)
qed

lemma find_by_key:
  assumes "distinct (map key xs)" and "x \<in> set xs"
  shows "find (\<lambda>y. key y = key x) xs = Some x"
  using assms by (induction xs) (auto simp: rev_image_eqI)

lemma find_map_key:
  assumes "\<And>x. key (g x) = key x"
  shows "find (\<lambda>y. key y = k) (map g xs) = map_option g (find (\<lambda>y. key y = k) xs)"
  by (induction xs) (simp_all add: assms)

subsection \<open>What the writes of the worker leave alone\<close>

lemma mark_sent_frame [simp]:
  "orders (mark_sent now i s) = orders s" "orderItems (mark_sent now i s) = orderItems s"
  by (simp_all add: mark_sent_def)

lemma mark_failed_frame [simp]:
  "orders (mark_failed now i msg s) = orders s"
  "orderItems (mark_failed now i msg s) = orderItems s"
  by (simp_all add: mark_failed_def)

lemma relay_fields_only_refl: "relay_fields_only e e"
  by (simp add: relay_fields_only_def)

lemma relay_fields_only_trans:
  "relay_fields_only a b \<Longrightarrow> relay_fields_only b c \<Longrightarrow> relay_fields_only a c"
  by (cases a, cases b, cases c) (simp add: relay_fields_only_def)

lemma relay_fields_only_update:
  "relay_fields_only e (e\<lparr>e_status := st, e_lastError := le, e_updatedAt := t\<rparr>)"
  by (simp add: relay_fields_only_def)

lemma mark_sent_fields:
  "list_all2 relay_fields_only (outboxEvents s) (outboxEvents (mark_sent now i s))"
  unfolding mark_sent_def
  by (simp add: updateFirst_rel relay_fields_only_refl relay_fields_only_update)

lemma mark_failed_fields:
  "list_all2 relay_fields_only (outboxEvents s) (outboxEvents (mark_failed now i msg s))"
  unfolding mark_failed_def
  by (simp add: updateFirst_rel relay_fields_only_refl relay_fields_only_update)

lemma fields_refl: "list_all2 relay_fields_only xs xs"
  by (simp add: list_all2_refl relay_fields_only_refl)

lemma fields_trans:
  "list_all2 relay_fields_only xs ys \<Longrightarrow> list_all2 relay_fields_only ys zs \<Longrightarrow>
   list_all2 relay_fields_only xs zs"
  by (rule list_all2_trans[of relay_fields_only relay_fields_only relay_fields_only])
    (auto intro: relay_fields_only_trans)

lemma on_failure_frame:
  "orders (db (fst (on_failure env evt err w))) = orders (db w) \<and>
   orderItems (db (fst (on_failure env evt err w))) = orderItems (db w) \<and>
   published (fst (on_failure env evt err w)) = published w \<and>
   list_all2 relay_fields_only (outboxEvents (db w)) (outboxEvents (db (fst (on_failure env evt err w))))"
  by (simp add: on_failure_def mark_failed_fields fields_refl split: option.splits)

lemma handle_event_frame:
  "orders (db (fst (handle_event pub env evt w))) = orders (db w) \<and>
   orderItems (db (fst (handle_event pub env evt w))) = orderItems (db w) \<and>
   published (fst (handle_event pub env evt w)) = published w @ [evt] \<and>
   list_all2 relay_fields_only (outboxEvents (db w))
     (outboxEvents (db (fst (handle_event pub env evt w))))"
  using on_failure_frame[of env evt _ "w\<lparr>published := published w @ [evt]\<rparr>"]
  by (simp add: handle_event_def Let_def mark_sent_fields split: promise.splits option.splits)

lemma for_events_frame:
  "orders (db (fst (for_events pub env evs w))) = orders (db w) \<and>
   orderItems (db (fst (for_events pub env evs w))) = orderItems (db w) \<and>
   list_all2 relay_fields_only (outboxEvents (db w))
     (outboxEvents (db (fst (for_events pub env evs w))))"
proof (induction evs arbitrary: w)
  case Nil
  then show ?case by (simp add: fields_refl)
next
  case (Cons evt evs)
  obtain w1 r where h: "handle_event pub env evt w = (w1, r)" by (cases "handle_event pub env evt w")
  have f1: "orders (db w1) = orders (db w)" "orderItems (db w1) = orderItems (db w)"
    "list_all2 relay_fields_only (outboxEvents (db w)) (outboxEvents (db w1))"
    using handle_event_frame[of pub env evt w] h by simp_all
  show ?case
  proof (cases r)
    case (Some err)
    then show ?thesis using h f1 by simp
  next
    case None
    then have "fst (for_events pub env (evt # evs) w) = fst (for_events pub env evs w1)"
      using h by simp
    then show ?thesis using Cons.IH[of w1] f1 by (auto intro: fields_trans)
  qed
qed

lemma tick_with_frame:
  "orders (db (tick_with pub env w)) = orders (db w) \<and>
   orderItems (db (tick_with pub env w)) = orderItems (db w) \<and>
   list_all2 relay_fields_only (outboxEvents (db w)) (outboxEvents (db (tick_with pub env w)))"
proof (cases "find_fault env")
  case (Some err)
  then show ?thesis by (simp add: tick_with_def fields_refl)
next
  case None
  obtain w' r where f: "for_events pub env (find_pending (db w)) w = (w', r)"
    by (cases "for_events pub env (find_pending (db w)) w")
  then have "db (tick_with pub env w) = db w'"
    using None by (simp add: tick_with_def split: option.splits)
  then show ?thesis using for_events_frame[of pub env "find_pending (db w)" w] f by simp
qed

section \<open>The batch and the terminal states\<close>

subsection \<open>The batch\<close>

lemma find_pending_conv:
  "find_pending s = take BATCH (sort_key e_createdAt (pending s))"
  by (simp add: find_pending_def pending_def)

lemma set_find_pending:
  "b \<in> set (find_pending s) \<Longrightarrow> b \<in> set (outboxEvents s) \<and> e_status b = PENDING"
  by (auto simp: find_pending_def dest!: in_set_takeD)

lemma distinct_find_pending:
  assumes "distinct (map e_id (outboxEvents s))"
  shows "distinct (map e_id (find_pending s))"
proof -
  have d: "distinct (outboxEvents s)" and i: "inj_on e_id (set (outboxEvents s))"
    using assms by (simp_all add: distinct_map)
  have "distinct (find_pending s)" using d by (simp add: find_pending_def)
  moreover have "inj_on e_id (set (find_pending s))"
    using i by (rule inj_on_subset) (auto dest: set_find_pending)
  ultimately show ?thesis by (simp add: distinct_map)
qed

lemma sorted_find_pending: "sorted (map e_createdAt (find_pending s))"
proof -
  have "sorted (map e_createdAt (sort_key e_createdAt (pending s)))" by simp
  then have "sorted (take BATCH (map e_createdAt (sort_key e_createdAt (pending s))))"
    by (rule sorted_wrt_take)
  then show ?thesis by (simp add: find_pending_conv take_map)
qed

lemma length_find_pending: "length (find_pending s) = min BATCH (length (pending s))"
  by (simp add: find_pending_conv min.commute)

lemma mset_find_pending:
  "mset (pending s) = mset (find_pending s) + mset (drop BATCH (sort_key e_createdAt (pending s)))"
proof -
  let ?xs = "sort_key e_createdAt (pending s)"
  have "mset (take BATCH ?xs) + mset (drop BATCH ?xs) = mset (take BATCH ?xs @ drop BATCH ?xs)"
    by (rule mset_append[symmetric])
  also have "\<dots> = mset ?xs" by (simp only: append_take_drop_id)
  also have "\<dots> = mset (pending s)" by (rule mset_sort)
  finally show ?thesis by (simp only: find_pending_conv)
qed

lemma oldest_first:
  assumes "b \<in> set (find_pending s)" and "r \<in># mset (pending s) - mset (find_pending s)"
  shows "e_createdAt b \<le> e_createdAt r"
proof -
  let ?xs = "sort_key e_createdAt (pending s)"
  have r: "r \<in> set (drop BATCH ?xs)"
    using assms(2) by (simp add: mset_find_pending)
  have b: "b \<in> set (take BATCH ?xs)" using assms(1) by (simp add: find_pending_conv)
  have "sorted (map e_createdAt (take BATCH ?xs @ drop BATCH ?xs))" by simp
  then have "\<forall>x \<in> set (take BATCH ?xs). \<forall>y \<in> set (drop BATCH ?xs). e_createdAt x \<le> e_createdAt y"
    unfolding map_append sorted_append by simp
  with b r show ?thesis by blast
qed

subsection \<open>The calls to the publisher\<close>

lemma on_failure_published: "published (fst (on_failure env evt err w)) = published w"
  by (simp add: on_failure_def split: option.splits)

lemma handle_event_published:
  "published (fst (handle_event pub env evt w)) = published w @ [evt]"
  by (simp add: handle_event_def Let_def on_failure_published split: promise.splits option.splits)

lemma for_events_published:
  "\<exists>k. published (fst (for_events pub env evs w)) = published w @ take k evs"
proof (induction evs arbitrary: w)
  case Nil
  then show ?case by simp
next
  case (Cons evt evs)
  obtain w1 r where h: "handle_event pub env evt w = (w1, r)" by (cases "handle_event pub env evt w")
  have p: "published w1 = published w @ [evt]"
    using handle_event_published[of pub env evt w] h by simp
  show ?case
  proof (cases r)
    case (Some err)
    then have "published (fst (for_events pub env (evt # evs) w)) = published w @ take 1 (evt # evs)"
      using h p by simp
    then show ?thesis by blast
  next
    case None
    from Cons.IH[of w1] obtain k where
      "published (fst (for_events pub env evs w1)) = published w1 @ take k evs" ..
    then have "published (fst (for_events pub env (evt # evs) w)) =
                 published w @ take (Suc k) (evt # evs)"
      using h p None by simp
    then show ?thesis by blast
  qed
qed

subsection \<open>Records that have left PENDING\<close>

lemma terminal_kept_refl: "terminal_kept e e"
  by (simp add: terminal_kept_def)

lemma terminal_kept_trans: "terminal_kept a b \<Longrightarrow> terminal_kept b c \<Longrightarrow> terminal_kept a c"
  by (auto simp: terminal_kept_def split: if_splits)

lemma kept_refl: "list_all2 terminal_kept xs xs"
  by (simp add: list_all2_refl terminal_kept_refl)

lemma kept_trans:
  "list_all2 terminal_kept xs ys \<Longrightarrow> list_all2 terminal_kept ys zs \<Longrightarrow>
   list_all2 terminal_kept xs zs"
  by (rule list_all2_trans[of terminal_kept terminal_kept terminal_kept])
    (auto intro: terminal_kept_trans)

lemma kept_ids: "list_all2 terminal_kept xs ys \<Longrightarrow> map e_id ys = map e_id xs"
  by (induction rule: list_all2_induct) (simp_all add: terminal_kept_def)

lemma mark_sent_kept:
  "list_all2 terminal_kept (outboxEvents s) (outboxEvents (mark_sent now i s))"
  unfolding mark_sent_def
  by (simp add: updateFirst_rel terminal_kept_refl terminal_kept_def)

lemma mark_failed_kept:
  assumes "\<And>x. x \<in> set (outboxEvents s) \<Longrightarrow> e_id x = i \<Longrightarrow> e_status x = PENDING"
  shows "list_all2 terminal_kept (outboxEvents s) (outboxEvents (mark_failed now i msg s))"
  unfolding mark_failed_def using assms
  by (simp add: updateFirst_rel terminal_kept_refl terminal_kept_def)

lemma mark_sent_others:
  "y \<in> set (outboxEvents (mark_sent now i s)) \<Longrightarrow> e_id y \<noteq> i \<Longrightarrow> y \<in> set (outboxEvents s)"
  by (auto simp: mark_sent_def dest!: updateFirst_set)

lemma mark_failed_others:
  "y \<in> set (outboxEvents (mark_failed now i msg s)) \<Longrightarrow> e_id y \<noteq> i \<Longrightarrow> y \<in> set (outboxEvents s)"
  by (auto simp: mark_failed_def dest!: updateFirst_set)

lemma handle_event_kept:
  assumes "\<And>x. x \<in> set (outboxEvents (db w)) \<Longrightarrow> e_id x = e_id evt \<Longrightarrow> e_status x = PENDING"
  shows "list_all2 terminal_kept (outboxEvents (db w))
           (outboxEvents (db (fst (handle_event pub env evt w))))"
  using assms
  by (auto simp: handle_event_def on_failure_def Let_def kept_refl
      intro!: mark_sent_kept mark_failed_kept split: promise.splits option.splits)

lemma handle_event_others:
  assumes "y \<in> set (outboxEvents (db (fst (handle_event pub env evt w))))"
    and "e_id y \<noteq> e_id evt"
  shows "y \<in> set (outboxEvents (db w))"
  using assms
  by (auto simp: handle_event_def on_failure_def Let_def
      dest: mark_sent_others mark_failed_others split: promise.splits option.splits)

lemma for_events_kept:
  assumes "distinct (map e_id evs)"
    and "\<And>b x. b \<in> set evs \<Longrightarrow> x \<in> set (outboxEvents (db w)) \<Longrightarrow> e_id x = e_id b \<Longrightarrow>
          e_status x = PENDING"
  shows "list_all2 terminal_kept (outboxEvents (db w))
           (outboxEvents (db (fst (for_events pub env evs w))))"
  using assms
proof (induction evs arbitrary: w)
  case Nil
  then show ?case by (simp add: kept_refl)
next
  case (Cons evt evs)
  obtain w1 r where h: "handle_event pub env evt w = (w1, r)" by (cases "handle_event pub env evt w")
  have k1: "list_all2 terminal_kept (outboxEvents (db w)) (outboxEvents (db w1))"
    using handle_event_kept[of w evt pub env] Cons.prems(2)[of evt] h by simp
  show ?case
  proof (cases r)
    case (Some err)
    then show ?thesis using h k1 by simp
  next
    case None
    have "list_all2 terminal_kept (outboxEvents (db w1))
            (outboxEvents (db (fst (for_events pub env evs w1))))"
    proof (rule Cons.IH)
      show "distinct (map e_id evs)" using Cons.prems(1) by simp
    next
      fix b x assume b: "b \<in> set evs" and x: "x \<in> set (outboxEvents (db w1))"
        and e: "e_id x = e_id b"
      have "e_id b \<noteq> e_id evt" using Cons.prems(1) b by (auto simp: image_iff)
      then have "x \<in> set (outboxEvents (db w))"
        using handle_event_others[of x pub env evt w] x e h by simp
      then show "e_status x = PENDING" using Cons.prems(2)[of b x] b e by simp
    qed
    then show ?thesis using h None k1 by (auto intro: kept_trans)
  qed
qed

lemma tick_with_kept:
  assumes "distinct (map e_id (outboxEvents (db w)))"
  shows "list_all2 terminal_kept (outboxEvents (db w)) (outboxEvents (db (tick_with pub env w)))"
proof (cases "find_fault env")
  case (Some err)
  then show ?thesis by (simp add: tick_with_def kept_refl)
next
  case None
  obtain w' r where f: "for_events pub env (find_pending (db w)) w = (w', r)"
    by (cases "for_events pub env (find_pending (db w)) w")
  then have d: "db (tick_with pub env w) = db w'"
    using None by (simp add: tick_with_def split: option.splits)
  have "list_all2 terminal_kept (outboxEvents (db w))
          (outboxEvents (db (fst (for_events pub env (find_pending (db w)) w))))"
  proof (rule for_events_kept)
    show "distinct (map e_id (find_pending (db w)))" using assms by (rule distinct_find_pending)
  next
    fix b x assume b: "b \<in> set (find_pending (db w))" and x: "x \<in> set (outboxEvents (db w))"
      and e: "e_id x = e_id b"
    have "b \<in> set (outboxEvents (db w))" "e_status b = PENDING"
      using set_find_pending[OF b] by simp_all
    moreover have "inj_on e_id (set (outboxEvents (db w)))" using assms by (simp add: distinct_map)
    ultimately show "e_status x = PENDING" using x e by (auto dest: inj_onD)
  qed
  then show ?thesis using f d by simp
qed

section \<open>Ticks that run through\<close>

subsection \<open>A tick none of whose events leaves the loop\<close>

lemma relayed_id [simp]: "e_id (relayed pub env e) = e_id e"
  by (simp add: relayed_def split: promise.splits option.splits)

lemma relayed_status: "e_status (relayed pub env e) \<noteq> PENDING"
  by (simp add: relayed_def split: promise.splits option.splits)

lemma updateFirst_at:
  assumes "distinct xs" and "a \<in> set xs" and "\<And>x. x \<in> set xs \<Longrightarrow> p x \<longleftrightarrow> x = a"
  shows "updateFirst p f xs = map (\<lambda>x. if x = a then f a else x) xs"
proof -
  have "updateFirst p f xs = map (\<lambda>x. if p x then f x else x) xs"
    using assms(1)
  proof (rule updateFirst_unique)
    fix x y assume "x \<in> set xs" "y \<in> set xs" "p x" "p y"
    then show "x = y" using assms(3) by simp
  qed
  also have "\<dots> = map (\<lambda>x. if x = a then f a else x) xs"
    by (rule map_cong) (auto simp: assms(3))
  finally show ?thesis .
qed

lemma handle_event_exact:
  assumes d: "distinct (map e_id (outboxEvents (db w)))"
    and m: "evt \<in> set (outboxEvents (db w))"
    and st: "e_status evt = PENDING"
    and na: "(\<exists>v. pub evt = Resolved v \<and> sent_fault env (e_id evt) = None) \<or>
             failed_fault env (e_id evt) = None"
  shows "handle_event pub env evt w =
           (w\<lparr>db := (db w)\<lparr>outboxEvents :=
                  map (\<lambda>x. if x = evt then relayed pub env evt else x) (outboxEvents (db w))\<rparr>,
              published := published w @ [evt],
              logged := logged w @ [relay_log pub env evt]\<rparr>, None)"
proof -
  have dx: "distinct (outboxEvents (db w))" and inj: "inj_on e_id (set (outboxEvents (db w)))"
    using d by (simp_all add: distinct_map)
  have key: "\<And>x. x \<in> set (outboxEvents (db w)) \<Longrightarrow> e_id x = e_id evt \<longleftrightarrow> x = evt"
    using inj m by (auto dest: inj_onD)
  have sent: "\<And>f. updateFirst (\<lambda>e. e_id e = e_id evt \<and> e_status e = PENDING) f (outboxEvents (db w)) =
                 map (\<lambda>x. if x = evt then f evt else x) (outboxEvents (db w))"
    using dx m by (rule updateFirst_at) (use key st in auto)
  have failed: "\<And>f. updateFirst (\<lambda>e. e_id e = e_id evt) f (outboxEvents (db w)) =
                 map (\<lambda>x. if x = evt then f evt else x) (outboxEvents (db w))"
    using dx m by (rule updateFirst_at) (use key in auto)
  show ?thesis
  proof (cases "pub evt")
    case (Rejected err)
    then have "failed_fault env (e_id evt) = None" using na by auto
    then show ?thesis
      using Rejected
      by (simp add: handle_event_def on_failure_def mark_failed_def failed relayed_def
          relay_log_def Let_def)
  next
    case (Resolved v)
    show ?thesis
    proof (cases "sent_fault env (e_id evt)")
      case None
      then show ?thesis
        using Resolved
        by (simp add: handle_event_def mark_sent_def sent relayed_def relay_log_def Let_def)
    next
      case (Some err)
      then have "failed_fault env (e_id evt) = None" using na Resolved by auto
      then show ?thesis
        using Resolved Some
        by (simp add: handle_event_def on_failure_def mark_failed_def failed relayed_def
            relay_log_def Let_def)
    qed
  qed
qed

lemma for_events_exact:
  assumes "distinct (map e_id (outboxEvents (db w)))"
    and "distinct evs"
    and "\<And>b. b \<in> set evs \<Longrightarrow> b \<in> set (outboxEvents (db w)) \<and> e_status b = PENDING"
    and "\<And>b. b \<in> set evs \<Longrightarrow>
           (\<exists>v. pub b = Resolved v \<and> sent_fault env (e_id b) = None) \<or>
           failed_fault env (e_id b) = None"
  shows "for_events pub env evs w =
           (w\<lparr>db := (db w)\<lparr>outboxEvents :=
                  map (\<lambda>x. if x \<in> set evs then relayed pub env x else x) (outboxEvents (db w))\<rparr>,
              published := published w @ evs,
              logged := logged w @ map (relay_log pub env) evs\<rparr>, None)"
  using assms
proof (induction evs arbitrary: w)
  case Nil
  then show ?case by simp
next
  case (Cons evt evs)
  let ?g = "\<lambda>x. if x = evt then relayed pub env evt else x"
  let ?w1 = "w\<lparr>db := (db w)\<lparr>outboxEvents := map ?g (outboxEvents (db w))\<rparr>,
               published := published w @ [evt],
               logged := logged w @ [relay_log pub env evt]\<rparr>"
  have inj: "inj_on e_id (set (outboxEvents (db w)))"
    using Cons.prems(1) by (simp add: distinct_map)
  have evt: "evt \<in> set (outboxEvents (db w))" "e_status evt = PENDING"
    using Cons.prems(3)[of evt] by simp_all
  have h: "handle_event pub env evt w = (?w1, None)"
    using Cons.prems(1) evt Cons.prems(4)[of evt] by (intro handle_event_exact) simp_all
  have ids: "map (e_id \<circ> ?g) (outboxEvents (db w)) = map e_id (outboxEvents (db w))"
    by (rule map_cong) simp_all
  have ne: "\<And>b. b \<in> set evs \<Longrightarrow> b \<noteq> evt" using Cons.prems(2) by auto
  have ih: "for_events pub env evs ?w1 =
          (?w1\<lparr>db := (db ?w1)\<lparr>outboxEvents :=
                  map (\<lambda>x. if x \<in> set evs then relayed pub env x else x) (outboxEvents (db ?w1))\<rparr>,
              published := published ?w1 @ evs,
              logged := logged ?w1 @ map (relay_log pub env) evs\<rparr>, None)"
  proof (rule Cons.IH)
    show "distinct (map e_id (outboxEvents (db ?w1)))" using Cons.prems(1) by (simp add: ids)
    show "distinct evs" using Cons.prems(2) by simp
  next
    fix b assume b: "b \<in> set evs"
    then have "b \<in> set (outboxEvents (db w))" "e_status b = PENDING" "b \<noteq> evt"
      using Cons.prems(3)[of b] ne by simp_all
    then have "b \<in> ?g ` set (outboxEvents (db w))" by (auto simp: image_iff)
    then show "b \<in> set (outboxEvents (db ?w1)) \<and> e_status b = PENDING"
      using \<open>e_status b = PENDING\<close> by simp
  next
    fix b assume "b \<in> set evs"
    then show "(\<exists>v. pub b = Resolved v \<and> sent_fault env (e_id b) = None) \<or>
           failed_fault env (e_id b) = None"
      using Cons.prems(4)[of b] by simp
  qed
  have notin: "relayed pub env evt \<notin> set evs"
  proof
    assume a: "relayed pub env evt \<in> set evs"
    then have "relayed pub env evt \<in> set (outboxEvents (db w))"
      "e_status (relayed pub env evt) = PENDING"
      using Cons.prems(3)[of "relayed pub env evt"] by simp_all
    then show False using relayed_status[of pub env evt] by simp
  qed
  have comp: "map (\<lambda>x. if x \<in> set evs then relayed pub env x else x) (map ?g (outboxEvents (db w))) =
        map (\<lambda>x. if x \<in> set (evt # evs) then relayed pub env x else x) (outboxEvents (db w))"
    using notin ne by (auto simp: comp_def)
  show ?case
    using h ih comp by simp
qed

lemma tick_with_exact:
  assumes "find_fault env = None"
    and "distinct (map e_id (outboxEvents (db w)))"
    and "\<And>b. b \<in> set (find_pending (db w)) \<Longrightarrow>
           (\<exists>v. pub b = Resolved v \<and> sent_fault env (e_id b) = None) \<or>
           failed_fault env (e_id b) = None"
  shows "tick_with pub env w =
           w\<lparr>db := (db w)\<lparr>outboxEvents :=
                 map (\<lambda>x. if x \<in> set (find_pending (db w)) then relayed pub env x else x)
                   (outboxEvents (db w))\<rparr>,
             published := published w @ find_pending (db w),
             logged := logged w @ map (relay_log pub env) (find_pending (db w))\<rparr>"
proof -
  have "distinct (find_pending (db w))"
    using distinct_find_pending[OF assms(2)] by (simp add: distinct_map)
  then have "for_events pub env (find_pending (db w)) w =
           (w\<lparr>db := (db w)\<lparr>outboxEvents :=
                 map (\<lambda>x. if x \<in> set (find_pending (db w)) then relayed pub env x else x)
                   (outboxEvents (db w))\<rparr>,
              published := published w @ find_pending (db w),
              logged := logged w @ map (relay_log pub env) (find_pending (db w))\<rparr>, None)"
    using assms(2,3) set_find_pending by (intro for_events_exact) auto
  then show ?thesis using assms(1) by (simp add: tick_with_def)
qed

lemma event_by_id_relayed:
  assumes "distinct (map e_id (outboxEvents s))" and "b \<in> set (outboxEvents s)"
  shows "event_by_id (e_id b)
           (s\<lparr>outboxEvents := map (\<lambda>x. if x \<in> B then relayed pub env x else x) (outboxEvents s)\<rparr>) =
         Some (if b \<in> B then relayed pub env b else b)"
proof -
  have "find (\<lambda>y. e_id y = e_id b)
          (map (\<lambda>x. if x \<in> B then relayed pub env x else x) (outboxEvents s)) =
        map_option (\<lambda>x. if x \<in> B then relayed pub env x else x)
          (find (\<lambda>y. e_id y = e_id b) (outboxEvents s))"
    by (rule find_map_key) simp
  then show ?thesis using find_by_key[OF assms] by (simp add: event_by_id_def)
qed

section \<open>Ticks that leave the loop\<close>

subsection \<open>A tick up to the event that leaves the loop\<close>

lemma aborts_None_iff:
  "aborts pub env e = None \<longleftrightarrow>
     (\<exists>v. pub e = Resolved v \<and> sent_fault env (e_id e) = None) \<or> failed_fault env (e_id e) = None"
  by (auto simp: aborts_def split: promise.splits option.splits)

lemma handle_event_aborts:
  assumes "aborts pub env evt = Some err"
  shows "handle_event pub env evt w = (w\<lparr>published := published w @ [evt]\<rparr>, Some err)"
  using assms
  by (auto simp: aborts_def handle_event_def on_failure_def Let_def
      split: promise.splits option.splits)

lemma processed_Cons:
  "processed pub env (e # evs) =
     (if aborts pub env e = None then e # processed pub env evs else [])"
  by (simp add: processed_def)

lemma abort_error_Cons:
  "abort_error pub env (e # evs) =
     (if aborts pub env e = None then abort_error pub env evs else aborts pub env e)"
  by (simp add: abort_error_def)

lemma processed_all:
  "(\<forall>e \<in> set evs. aborts pub env e = None) \<longleftrightarrow> processed pub env evs = evs"
  by (simp add: processed_def takeWhile_eq_all_conv)

lemma processed_append:
  assumes "\<forall>c \<in> set pre. aborts pub env c = None"
  shows "processed pub env (pre @ evs) = pre @ processed pub env evs"
  using assms by (simp add: processed_def)

lemma set_processed: "e \<in> set (processed pub env evs) \<Longrightarrow> e \<in> set evs \<and> aborts pub env e = None"
  by (auto simp: processed_def dest: set_takeWhileD)

lemma for_events_run:
  assumes "distinct (map e_id (outboxEvents (db w)))"
    and "distinct evs"
    and "\<And>b. b \<in> set evs \<Longrightarrow> b \<in> set (outboxEvents (db w)) \<and> e_status b = PENDING"
  shows "for_events pub env evs w =
           (w\<lparr>db := (db w)\<lparr>outboxEvents :=
                  map (\<lambda>x. if x \<in> set (processed pub env evs) then relayed pub env x else x)
                    (outboxEvents (db w))\<rparr>,
              published := published w @ take (Suc (length (processed pub env evs))) evs,
              logged := logged w @ map (relay_log pub env) (processed pub env evs)\<rparr>,
            abort_error pub env evs)"
  using assms
proof (induction evs arbitrary: w)
  case Nil
  then show ?case by (simp add: processed_def abort_error_def)
next
  case (Cons evt evs)
  show ?case
  proof (cases "aborts pub env evt")
    case (Some err)
    then show ?thesis
      by (simp add: handle_event_aborts processed_Cons abort_error_Cons)
  next
    case None
    let ?g = "\<lambda>x. if x = evt then relayed pub env evt else x"
    let ?w1 = "w\<lparr>db := (db w)\<lparr>outboxEvents := map ?g (outboxEvents (db w))\<rparr>,
                 published := published w @ [evt],
                 logged := logged w @ [relay_log pub env evt]\<rparr>"
    have evt: "evt \<in> set (outboxEvents (db w))" "e_status evt = PENDING"
      using Cons.prems(3)[of evt] by simp_all
    have h: "handle_event pub env evt w = (?w1, None)"
      using Cons.prems(1) evt None by (intro handle_event_exact) (simp_all add: aborts_None_iff)
    have ids: "map (e_id \<circ> ?g) (outboxEvents (db w)) = map e_id (outboxEvents (db w))"
      by (rule map_cong) simp_all
    have ne: "\<And>b. b \<in> set evs \<Longrightarrow> b \<noteq> evt" using Cons.prems(2) by auto
    have ih: "for_events pub env evs ?w1 =
           (?w1\<lparr>db := (db ?w1)\<lparr>outboxEvents :=
                  map (\<lambda>x. if x \<in> set (processed pub env evs) then relayed pub env x else x)
                    (outboxEvents (db ?w1))\<rparr>,
              published := published ?w1 @ take (Suc (length (processed pub env evs))) evs,
              logged := logged ?w1 @ map (relay_log pub env) (processed pub env evs)\<rparr>,
            abort_error pub env evs)"
    proof (rule Cons.IH)
      show "distinct (map e_id (outboxEvents (db ?w1)))" using Cons.prems(1) by (simp add: ids)
      show "distinct evs" using Cons.prems(2) by simp
    next
      fix b assume b: "b \<in> set evs"
      then have "b \<in> set (outboxEvents (db w))" "e_status b = PENDING" "b \<noteq> evt"
        using Cons.prems(3)[of b] ne by simp_all
      then have "b \<in> ?g ` set (outboxEvents (db w))" by (auto simp: image_iff)
      then show "b \<in> set (outboxEvents (db ?w1)) \<and> e_status b = PENDING"
        using \<open>e_status b = PENDING\<close> by simp
    qed
    have notin: "relayed pub env evt \<notin> set (processed pub env evs)"
    proof
      assume "relayed pub env evt \<in> set (processed pub env evs)"
      then have "relayed pub env evt \<in> set evs" by (auto dest: set_processed)
      then have "e_status (relayed pub env evt) = PENDING"
        using Cons.prems(3)[of "relayed pub env evt"] by simp
      then show False using relayed_status[of pub env evt] by simp
    qed
    have ne': "\<And>b. b \<in> set (processed pub env evs) \<Longrightarrow> b \<noteq> evt"
      using ne by (auto dest: set_processed)
    have comp: "map (\<lambda>x. if x \<in> set (processed pub env evs) then relayed pub env x else x)
                  (map ?g (outboxEvents (db w))) =
        map (\<lambda>x. if x \<in> set (evt # processed pub env evs) then relayed pub env x else x)
          (outboxEvents (db w))"
      using notin ne' by (auto simp: comp_def)
    show ?thesis
      using h ih comp None by (simp add: processed_Cons abort_error_Cons)
  qed
qed

lemma tick_with_run:
  assumes "find_fault env = None"
    and "distinct (map e_id (outboxEvents (db w)))"
  shows "tick_with pub env w =
           w\<lparr>db := (db w)\<lparr>outboxEvents :=
                 map (\<lambda>x. if x \<in> set (processed pub env (find_pending (db w)))
                           then relayed pub env x else x)
                   (outboxEvents (db w))\<rparr>,
             published := published w @
               take (Suc (length (processed pub env (find_pending (db w))))) (find_pending (db w)),
             logged := logged w @ map (relay_log pub env) (processed pub env (find_pending (db w))) @
               abort_log pub env (find_pending (db w))\<rparr>"
proof -
  have "distinct (find_pending (db w))"
    using distinct_find_pending[OF assms(2)] by (simp add: distinct_map)
  then have "for_events pub env (find_pending (db w)) w =
           (w\<lparr>db := (db w)\<lparr>outboxEvents :=
                  map (\<lambda>x. if x \<in> set (processed pub env (find_pending (db w)))
                            then relayed pub env x else x)
                    (outboxEvents (db w))\<rparr>,
              published := published w @
                take (Suc (length (processed pub env (find_pending (db w))))) (find_pending (db w)),
              logged := logged w @ map (relay_log pub env) (processed pub env (find_pending (db w)))\<rparr>,
            abort_error pub env (find_pending (db w)))"
    using assms(2) set_find_pending by (intro for_events_run) auto
  then show ?thesis
    using assms(1) by (simp add: tick_with_def abort_log_def split: option.splits)
qed

lemma for_events_calls:
  "published (fst (for_events pub env evs w)) =
     published w @ take (Suc (length (processed pub env evs))) evs"
proof (induction evs arbitrary: w)
  case Nil
  then show ?case by (simp add: processed_def)
next
  case (Cons evt evs)
  show ?case
  proof (cases "aborts pub env evt")
    case (Some err)
    then show ?thesis by (simp add: handle_event_aborts processed_Cons)
  next
    case None
    obtain w1 r where h: "handle_event pub env evt w = (w1, r)"
      by (cases "handle_event pub env evt w")
    have "r = None \<and> published w1 = published w @ [evt]"
      using None h
      by (auto simp: aborts_def handle_event_def on_failure_def Let_def
          split: promise.splits option.splits)
    then show ?thesis using h None Cons.IH[of w1] by (simp add: processed_Cons)
  qed
qed

lemma tick_with_calls:
  assumes "find_fault env = None"
  shows "published (tick_with pub env w) =
           published w @
             take (Suc (length (processed pub env (find_pending (db w))))) (find_pending (db w))"
proof -
  obtain w' r where f: "for_events pub env (find_pending (db w)) w = (w', r)"
    by (cases "for_events pub env (find_pending (db w)) w")
  then have "published (tick_with pub env w) = published w'"
    using assms by (simp add: tick_with_def split: option.splits)
  then show ?thesis using for_events_calls[of pub env "find_pending (db w)" w] f by simp
qed

subsection \<open>A firing that runs alone\<close>

lemma resume_steps:
  "foldl (\<lambda>st m. move_with pub m st) (w, [\<lparr>f_env = env, f_rest = evs\<rparr>])
     (replicate (length evs) (Resume 0)) =
   (case for_events pub env evs w of
      (w', None) \<Rightarrow> (w', [\<lparr>f_env = env, f_rest = []\<rparr>])
    | (w', Some err) \<Rightarrow>
        (w'\<lparr>logged := logged w' @ [Log_error None err ''outbox tick failed'']\<rparr>,
         [\<lparr>f_env = env, f_rest = []\<rparr>]))"
proof (induction evs arbitrary: w)
  case Nil
  then show ?case by simp
next
  case (Cons evt evs)
  obtain w1 r where h: "handle_event pub env evt w = (w1, r)" by (cases "handle_event pub env evt w")
  show ?case
  proof (cases r)
    case None
    then show ?thesis using h Cons.IH[of w1] by simp
  next
    case (Some err)
    have idle: "\<And>n st. foldl (\<lambda>st m. move_with pub m st) (st, [\<lparr>f_env = env, f_rest = []\<rparr>])
                   (replicate n (Resume 0)) = (st, [\<lparr>f_env = env, f_rest = []\<rparr>])"
    proof -
      fix n st show "foldl (\<lambda>st m. move_with pub m st) (st, [\<lparr>f_env = env, f_rest = []\<rparr>])
                   (replicate n (Resume 0)) = (st, [\<lparr>f_env = env, f_rest = []\<rparr>])"
        by (induction n) simp_all
    qed
    show ?thesis using h Some by (simp add: idle)
  qed
qed

lemma firing_alone:
  "fst (run_with pub (Fire env # replicate (length (find_pending (db w))) (Resume 0)) w) =
     tick_with pub env w"
proof (cases "find_fault env")
  case (Some err)
  have idle: "\<And>n st. foldl (\<lambda>st m. move_with pub m st) (st, []) (replicate n (Resume 0)) = (st, [])"
  proof -
    fix n st show "foldl (\<lambda>st m. move_with pub m st) (st, []) (replicate n (Resume 0)) = (st, [])"
      by (induction n) simp_all
  qed
  show ?thesis using Some by (simp add: run_with_def tick_with_def idle)
next
  case None
  then show ?thesis
    using resume_steps[of pub w env "find_pending (db w)"]
    by (simp add: run_with_def tick_with_def split: prod.splits option.splits)
qed

section \<open>Ticks and the log\<close>

subsection \<open>The log does not steer a tick\<close>

lemma handle_event_same_data:
  assumes "db w = db v" and "published w = published v"
  shows "db (fst (handle_event pub env evt w)) = db (fst (handle_event pub env evt v)) \<and>
         published (fst (handle_event pub env evt w)) = published (fst (handle_event pub env evt v)) \<and>
         snd (handle_event pub env evt w) = snd (handle_event pub env evt v)"
  using assms
  by (simp add: handle_event_def on_failure_def Let_def split: promise.splits option.splits)

lemma for_events_same_data:
  assumes "db w = db v" and "published w = published v"
  shows "db (fst (for_events pub env evs w)) = db (fst (for_events pub env evs v)) \<and>
         published (fst (for_events pub env evs w)) = published (fst (for_events pub env evs v))"
  using assms
proof (induction evs arbitrary: w v)
  case Nil
  then show ?case by simp
next
  case (Cons evt evs)
  obtain w1 r where hw: "handle_event pub env evt w = (w1, r)" by (cases "handle_event pub env evt w")
  obtain v1 q where hv: "handle_event pub env evt v = (v1, q)" by (cases "handle_event pub env evt v")
  have s: "db w1 = db v1" "published w1 = published v1" "r = q"
    using handle_event_same_data[OF Cons.prems, of pub env evt] hw hv by simp_all
  show ?case
  proof (cases r)
    case (Some err)
    then show ?thesis using hw hv s by simp
  next
    case None
    then show ?thesis using hw hv s Cons.IH[of w1 v1] by simp
  qed
qed

lemma tick_with_same_data:
  assumes "db w = db v" and "published w = published v"
  shows "db (tick_with pub env w) = db (tick_with pub env v) \<and>
         published (tick_with pub env w) = published (tick_with pub env v)"
proof (cases "find_fault env")
  case (Some err)
  then show ?thesis using assms by (simp add: tick_with_def)
next
  case None
  obtain w' r where fw: "for_events pub env (find_pending (db w)) w = (w', r)"
    by (cases "for_events pub env (find_pending (db w)) w")
  obtain v' q where fv: "for_events pub env (find_pending (db v)) v = (v', q)"
    by (cases "for_events pub env (find_pending (db v)) v")
  have "db w' = db v'" "published w' = published v'"
    using for_events_same_data[OF assms, of pub env "find_pending (db w)"] fw fv assms(1)
    by simp_all
  moreover have "db (tick_with pub env w) = db w'" "published (tick_with pub env w) = published w'"
    using None fw by (simp_all add: tick_with_def split: option.splits)
  moreover have "db (tick_with pub env v) = db v'" "published (tick_with pub env v) = published v'"
    using None fv by (simp_all add: tick_with_def split: option.splits)
  ultimately show ?thesis by simp
qed

lemma tick_with_find_fault:
  assumes "find_fault env = Some err"
  shows "tick_with pub env w = w\<lparr>logged := logged w @ [Log_error None err ''outbox tick failed'']\<rparr>"
  using assms by (simp add: tick_with_def)

lemma tick_with_published:
  assumes "find_fault env = None"
  shows "\<exists>k. published (tick_with pub env w) = published w @ take k (find_pending (db w))"
proof -
  obtain w' r where f: "for_events pub env (find_pending (db w)) w = (w', r)"
    by (cases "for_events pub env (find_pending (db w)) w")
  then have "published (tick_with pub env w) = published w'"
    using assms by (simp add: tick_with_def split: option.splits)
  then show ?thesis using for_events_published[of pub env "find_pending (db w)" w] f by simp
qed

subsection \<open>The sample worlds\<close>

lemma sample_ids: "distinct (map e_id (outboxEvents (db world_two)))"
  by (simp add: world_two_def evt_1_def evt_2_def)

lemma sample_batch: "find_pending (db world_two) = [evt_1, evt_2]"
  by (simp add: find_pending_def world_two_def evt_1_def evt_2_def BATCH_def)

lemma sample_distinct: "evt_1 \<noteq> evt_2"
  by (simp add: evt_1_def evt_2_def)

lemma sample_ids_three: "distinct (map e_id (outboxEvents (db world_three)))"
  by (simp add: world_three_def evt_1_def evt_2_def evt_3_def)

lemma sample_batch_three: "find_pending (db world_three) = [evt_1, evt_2, evt_3]"
  by (simp add: find_pending_def world_three_def evt_1_def evt_2_def evt_3_def BATCH_def)

section \<open>Overlapping firings, batch and frame\<close>

lemma handle_event_leaves: "snd (handle_event pub env evt w) = aborts pub env evt"
  by (simp add: aborts_def handle_event_def on_failure_def Let_def
      split: promise.splits option.splits)

lemma sample_overlap:
  "run_with publish [Fire tick_late, Fire tick_ok, Resume 1] world_two =
     (world_two\<lparr>db := (db world_two)\<lparr>outboxEvents :=
          [evt_2, evt_1\<lparr>e_status := SENT, e_lastError := None, e_updatedAt := 100\<rparr>]\<rparr>,
        published := [evt_1],
        logged := [Log_info (toHexString (ObjectId 1)) ''outbox sent'']\<rparr>,
      [\<lparr>f_env = tick_late, f_rest = [evt_1, evt_2]\<rparr>, \<lparr>f_env = tick_ok, f_rest = [evt_2]\<rparr>])"
proof -
  have f: "find_fault tick_late = None" "find_fault tick_ok = None"
    by (simp_all add: tick_late_def tick_ok_def)
  have h: "handle_event publish tick_ok evt_1 world_two =
     (world_two\<lparr>db := (db world_two)\<lparr>outboxEvents :=
          [evt_2, evt_1\<lparr>e_status := SENT, e_lastError := None, e_updatedAt := 100\<rparr>]\<rparr>,
        published := [evt_1],
        logged := [Log_info (toHexString (ObjectId 1)) ''outbox sent'']\<rparr>, None)"
    by (simp add: handle_event_def Let_def publish_def tick_ok_def never_def mark_sent_def
        world_two_def evt_1_def evt_2_def)
  show ?thesis by (simp add: run_with_def f sample_batch h)
qed

text \<open>
  C4. The claim is that a record of the outbox that is \<open>SENT\<close> or \<open>FAILED\<close> never changes
  again, over every sequence of steps of the worker. The write of the success path is
  conditioned on the record being \<open>PENDING\<close>; the write of the \<open>catch\<close> clause is not, and
  the interval does not wait for a firing to end. Take two pending events and two firings
  that have both read them. The second firing handles the first event, which ends \<open>SENT\<close>.
  Then the first firing, which still holds the event in its batch, handles it: its write
  of \<open>SENT\<close> rejects, and the write of its \<open>catch\<close> clause turns the record from \<open>SENT\<close> to
  \<open>FAILED\<close>.
\<close>

theorem C4_sent_overwritten:
  "event_by_id (ObjectId 1)
     (db (fst (run_with publish [Fire tick_late, Fire tick_ok, Resume 1] world_two))) =
     Some (evt_1\<lparr>e_status := SENT, e_lastError := None, e_updatedAt := 100\<rparr>) \<and>
   event_by_id (ObjectId 1)
     (db (fst (run_with publish [Fire tick_late, Fire tick_ok, Resume 1, Resume 0] world_two))) =
     Some (evt_1\<lparr>e_status := FAILED, e_lastError := Some ''connection closed'',
             e_updatedAt := 300\<rparr>) \<and>
   \<not> list_all2 terminal_kept
       (outboxEvents (db (fst (run_with publish [Fire tick_late, Fire tick_ok, Resume 1] world_two))))
       (outboxEvents (db (fst (run_with publish [Fire tick_late, Fire tick_ok, Resume 1, Resume 0]
          world_two))))"
proof -
  let ?w = "world_two\<lparr>db := (db world_two)\<lparr>outboxEvents :=
          [evt_2, evt_1\<lparr>e_status := SENT, e_lastError := None, e_updatedAt := 100\<rparr>]\<rparr>,
        published := [evt_1],
        logged := [Log_info (toHexString (ObjectId 1)) ''outbox sent'']\<rparr>"
  let ?fs = "[\<lparr>f_env = tick_late, f_rest = [evt_1, evt_2]\<rparr>, \<lparr>f_env = tick_ok, f_rest = [evt_2]\<rparr>]"
  have s: "run_with publish [Fire tick_late, Fire tick_ok, Resume 1, Resume 0] world_two =
             move_with publish (Resume 0) (?w, ?fs)"
    using sample_overlap by (simp add: run_with_def)
  have h: "outboxEvents (db (fst (handle_event publish tick_late evt_1 ?w))) =
             [evt_2, evt_1\<lparr>e_status := FAILED, e_lastError := Some ''connection closed'',
                e_updatedAt := 300\<rparr>] \<and>
           snd (handle_event publish tick_late evt_1 ?w) = None"
    by (simp add: handle_event_def on_failure_def Let_def publish_def tick_late_def never_def
        at_first_def mark_failed_def connection_lost_def world_two_def evt_1_def evt_2_def)
  have o: "outboxEvents (db (fst (move_with publish (Resume 0) (?w, ?fs)))) =
             [evt_2, evt_1\<lparr>e_status := FAILED, e_lastError := Some ''connection closed'',
                e_updatedAt := 300\<rparr>]"
    using h by (cases "handle_event publish tick_late evt_1 ?w") simp
  have i: "e_id evt_1 = ObjectId 1" "e_id evt_2 = ObjectId 2"
    by (simp_all add: evt_1_def evt_2_def)
  have a: "outboxEvents (db (fst (run_with publish [Fire tick_late, Fire tick_ok, Resume 1]
               world_two))) =
             [evt_2, evt_1\<lparr>e_status := SENT, e_lastError := None, e_updatedAt := 100\<rparr>]"
    by (subst sample_overlap) simp
  have b: "outboxEvents (db (fst (run_with publish
               [Fire tick_late, Fire tick_ok, Resume 1, Resume 0] world_two))) =
             [evt_2, evt_1\<lparr>e_status := FAILED, e_lastError := Some ''connection closed'',
                e_updatedAt := 300\<rparr>]"
    by (subst s) (rule o)
  have n: "evt_1\<lparr>e_status := FAILED, e_lastError := Some ''connection closed'',
               e_updatedAt := 300\<rparr> \<noteq>
           evt_1\<lparr>e_status := SENT, e_lastError := None, e_updatedAt := 100\<rparr>"
    by (simp add: evt_1_def)
  show ?thesis
    unfolding event_by_id_def a b by (simp add: i terminal_kept_def n)
qed

text \<open>
  C5, as amended. The query of a tick selects at most \<open>BATCH = 50\<close> events, all \<open>PENDING\<close>, in
  ascending order of creation time and oldest first: every pending event left out was
  created no earlier than every selected one. The tick hands the events of the batch to
  the publisher one after the other in that order, up to and including the first event
  whose loop body leaves the loop, which is the case exactly when the write of its \<open>catch\<close>
  clause rejects; a tick whose query rejects hands nothing to the publisher and changes no
  record. In a collection with unique \<open>_id\<close>s each event before that one ends as
  its own publish and write decide and has its own log entry, in batch order, every other
  record stays as it is, and the rejection that left the loop is logged last. When no
  event leaves the loop, in particular when no write of a \<open>catch\<close> clause rejects, this is
  the whole batch. The claim as stated has the whole batch processed in every tick; in
  the counterexample below the second event of the batch is never processed.
\<close>

theorem C5_batch:
  "BATCH = 50 \<and>
   length (find_pending (db w)) = min BATCH (length (pending (db w))) \<and>
   mset (find_pending (db w)) \<subseteq># mset (pending (db w)) \<and>
   list_all (\<lambda>b. e_status b = PENDING) (find_pending (db w)) \<and>
   sorted (map e_createdAt (find_pending (db w))) \<and>
   (\<forall>b \<in> set (find_pending (db w)).
      \<forall>r \<in># mset (pending (db w)) - mset (find_pending (db w)). e_createdAt b \<le> e_createdAt r) \<and>
   (find_fault env = None \<longrightarrow>
      published (tick_with pub env w) =
        published w @
          take (Suc (length (processed pub env (find_pending (db w))))) (find_pending (db w))) \<and>
   (find_fault env = None \<and> distinct (map e_id (outboxEvents (db w))) \<longrightarrow>
      outboxEvents (db (tick_with pub env w)) =
        map (\<lambda>x. if x \<in> set (processed pub env (find_pending (db w)))
                  then relayed pub env x else x)
          (outboxEvents (db w)) \<and>
      logged (tick_with pub env w) =
        logged w @ map (relay_log pub env) (processed pub env (find_pending (db w))) @
          abort_log pub env (find_pending (db w))) \<and>
   (find_fault env \<noteq> None \<longrightarrow>
      db (tick_with pub env w) = db w \<and> published (tick_with pub env w) = published w) \<and>
   (\<forall>v. snd (handle_event pub env evt v) = aborts pub env evt) \<and>
   ((\<forall>b \<in> set (find_pending (db w)). aborts pub env b = None) \<longleftrightarrow>
      processed pub env (find_pending (db w)) = find_pending (db w)) \<and>
   (\<forall>b \<in> set (find_pending (db w)). failed_fault env (e_id b) = None \<longrightarrow> aborts pub env b = None)"
proof (intro conjI ballI impI allI)
  show "BATCH = 50" by (simp add: BATCH_def)
  show "length (find_pending (db w)) = min BATCH (length (pending (db w)))"
    by (rule length_find_pending)
  show "mset (find_pending (db w)) \<subseteq># mset (pending (db w))"
    using mset_find_pending[of "db w"] by (metis mset_subset_eq_add_left)
  show "list_all (\<lambda>b. e_status b = PENDING) (find_pending (db w))"
    using set_find_pending by (auto simp: list_all_iff)
  show "sorted (map e_createdAt (find_pending (db w)))" by (rule sorted_find_pending)
  show "(\<forall>b \<in> set (find_pending (db w)). aborts pub env b = None) \<longleftrightarrow>
      processed pub env (find_pending (db w)) = find_pending (db w)"
    by (rule processed_all)
next
  fix b r assume "b \<in> set (find_pending (db w))"
    "r \<in># mset (pending (db w)) - mset (find_pending (db w))"
  then show "e_createdAt b \<le> e_createdAt r" by (rule oldest_first)
next
  assume "find_fault env = None"
  then show "published (tick_with pub env w) =
        published w @
          take (Suc (length (processed pub env (find_pending (db w))))) (find_pending (db w))"
    by (rule tick_with_calls)
next
  assume a: "find_fault env = None \<and> distinct (map e_id (outboxEvents (db w)))"
  note t = tick_with_run[of env w pub]
  show "outboxEvents (db (tick_with pub env w)) =
        map (\<lambda>x. if x \<in> set (processed pub env (find_pending (db w)))
                  then relayed pub env x else x)
          (outboxEvents (db w))"
    using a by (simp add: t)
  show "logged (tick_with pub env w) =
        logged w @ map (relay_log pub env) (processed pub env (find_pending (db w))) @
          abort_log pub env (find_pending (db w))"
    using a by (simp add: t)
next
  assume "find_fault env \<noteq> None"
  then obtain err where "find_fault env = Some err" by auto
  then show "db (tick_with pub env w) = db w" "published (tick_with pub env w) = published w"
    by (simp_all add: tick_with_find_fault)
next
  fix v show "snd (handle_event pub env evt v) = aborts pub env evt"
    by (rule handle_event_leaves)
next
  fix b :: outbox_event assume "failed_fault env (e_id b) = None"
  then show "aborts pub env b = None"
    by (simp add: aborts_def split: promise.splits option.splits)
qed

theorem C5_batch_witness:
  "find_pending (db world_two) = [evt_1, evt_2] \<and>
   e_createdAt evt_1 \<le> e_createdAt evt_2 \<and>
   published (tick_with publish tick_ok world_two) = [evt_1, evt_2] \<and>
   outboxEvents (db (tick_with publish tick_ok world_two)) =
     [evt_2\<lparr>e_status := SENT, e_lastError := None, e_updatedAt := 100\<rparr>,
      evt_1\<lparr>e_status := SENT, e_lastError := None, e_updatedAt := 100\<rparr>] \<and>
   logged (tick_with publish tick_ok world_two) =
     [Log_info (toHexString (ObjectId 1)) ''outbox sent'',
      Log_info (toHexString (ObjectId 2)) ''outbox sent''] \<and>
   db (tick_with publish tick_find_fault world_two) = db world_two \<and>
   published (tick_with publish tick_find_fault world_two) = []"
proof -
  have a: "aborts publish tick_ok evt_1 = None" "aborts publish tick_ok evt_2 = None"
    by (simp_all add: aborts_def publish_def tick_ok_def never_def)
  have p: "processed publish tick_ok [evt_1, evt_2] = [evt_1, evt_2]"
    "abort_log publish tick_ok [evt_1, evt_2] = []"
    by (simp_all add: processed_def abort_log_def abort_error_def a)
  have h: "find_fault tick_ok = None" "distinct (map e_id (outboxEvents (db world_two)))"
    using sample_ids by (simp_all add: tick_ok_def)
  have r: "relayed publish tick_ok evt_1 =
             evt_1\<lparr>e_status := SENT, e_lastError := None, e_updatedAt := 100\<rparr>"
    "relayed publish tick_ok evt_2 =
             evt_2\<lparr>e_status := SENT, e_lastError := None, e_updatedAt := 100\<rparr>"
    "relay_log publish tick_ok evt_1 = Log_info (toHexString (ObjectId 1)) ''outbox sent''"
    "relay_log publish tick_ok evt_2 = Log_info (toHexString (ObjectId 2)) ''outbox sent''"
    by (simp_all add: relayed_def relay_log_def publish_def tick_ok_def never_def
        evt_1_def evt_2_def)
  have o: "outboxEvents (db world_two) = [evt_2, evt_1]" "published world_two = []"
    "logged world_two = []" "e_createdAt evt_1 \<le> e_createdAt evt_2"
    by (simp_all add: world_two_def evt_1_def evt_2_def)
  have f: "find_fault tick_find_fault \<noteq> None" by (simp add: tick_find_fault_def)
  from C5_batch[of world_two tick_ok publish evt_1]
    C5_batch[of world_two tick_find_fault publish evt_1] h f
  show ?thesis by (simp add: sample_batch p o r)
qed

theorem C5_counterexample:
  "find_pending (db world_two) = [evt_1, evt_2] \<and>
   find_fault tick_both_fault = None \<and>
   published (tick tick_both_fault world_two) = [evt_1] \<and>
   db (tick tick_both_fault world_two) = db world_two \<and>
   logged (tick tick_both_fault world_two) =
     [Log_error None connection_lost ''outbox tick failed'']"
proof -
  have i: "e_id evt_1 = ObjectId 1" by (simp add: evt_1_def)
  have p: "published world_two = []" "logged world_two = []" by (simp_all add: world_two_def)
  have h: "handle_event publish tick_both_fault evt_1 world_two =
             (world_two\<lparr>published := [evt_1]\<rparr>, Some connection_lost)"
    by (simp add: handle_event_def on_failure_def Let_def publish_def tick_both_fault_def
        at_first_def i p)
  have f: "find_fault tick_both_fault = None" by (simp add: tick_both_fault_def)
  have t: "tick_with publish tick_both_fault world_two =
             world_two\<lparr>published := [evt_1],
               logged := [Log_error None connection_lost ''outbox tick failed'']\<rparr>"
    by (simp add: tick_with_def f sample_batch h p)
  show ?thesis by (simp add: tick_def t sample_batch f)
qed

text \<open>
  C9, as amended. Creating an order makes no call to the publisher, and a tick of the
  worker leaves every Order and every OrderItem as it is and changes nothing of an outbox
  record but its \<open>status\<close>, \<open>lastError\<close> and \<open>updatedAt\<close>. The claim as stated names \<open>status\<close>
  and \<open>lastError\<close> only; the schema has \<open>timestamps: true\<close>, so each update of the worker
  also sets \<open>updatedAt\<close>, as the counterexample further down shows.
\<close>

theorem C9_frame:
  "published (snd (post_orders renv req w)) = published w \<and>
   orders (db (tick_with pub env w)) = orders (db w) \<and>
   orderItems (db (tick_with pub env w)) = orderItems (db w) \<and>
   list_all2 relay_fields_only (outboxEvents (db w)) (outboxEvents (db (tick_with pub env w)))"
proof -
  have "published (snd (post_orders renv req w)) = published w"
    by (simp add: post_orders_cases split: option.splits sum.splits)
  then show ?thesis using tick_with_frame[of pub env w] by simp
qed

section \<open>Failures in a tick\<close>

lemma sample_tick_ok:
  "outboxEvents (db (tick tick_ok world_two)) =
     [evt_2\<lparr>e_status := SENT, e_lastError := None, e_updatedAt := 100\<rparr>,
      evt_1\<lparr>e_status := SENT, e_lastError := None, e_updatedAt := 100\<rparr>]"
proof -
  have "tick_with publish tick_ok world_two =
           world_two\<lparr>db := (db world_two)\<lparr>outboxEvents :=
                 map (\<lambda>x. if x \<in> set (find_pending (db world_two)) then relayed publish tick_ok x else x)
                   (outboxEvents (db world_two))\<rparr>,
             published := published world_two @ find_pending (db world_two),
             logged := logged world_two @ map (relay_log publish tick_ok) (find_pending (db world_two))\<rparr>"
    using _ sample_ids by (rule tick_with_exact) (simp_all add: tick_ok_def never_def)
  then show ?thesis
    by (simp add: tick_def sample_batch)
      (simp add: world_two_def relayed_def publish_def tick_ok_def never_def)
qed

theorem C9_counterexample:
  "\<not> list_all2 status_and_error_only (outboxEvents (db world_two))
       (outboxEvents (db (tick tick_ok world_two)))"
  by (simp add: sample_tick_ok) (simp add: world_two_def status_and_error_only_def evt_2_def)

text \<open>
  C6, as amended. Take a tick in a collection with unique \<open>_id\<close>s whose query for the
  batch succeeds, and an event of the batch that the loop reaches: no event before it left
  the loop. If its publish rejects and the write of its \<open>catch\<close> clause succeeds, the event
  ends \<open>FAILED\<close> with \<open>lastError\<close> the string form of what was thrown, and the loop goes on:
  the events after it are handed to the publisher in order, up to and including the first
  of them whose own loop body leaves the loop, and each of them before that one ends as its
  own publish and write decide. The loop body of an event leaves the loop exactly when the
  write of its \<open>catch\<close> clause rejects. When instead the query for the batch rejects, the
  tick changes neither the database nor the calls made, logs the rejection and returns,
  and the next tick does what it would have done without it. The claim as stated counts a
  publisher that signals failure without throwing, has no condition on the write that
  records the failure, and has all the remaining events processed; the counterexample
  below has a publisher that resolves to \<open>false\<close>, whose events end \<open>SENT\<close>; a first event
  whose write in the \<open>catch\<close> clause rejects, which stays \<open>PENDING\<close> while the second event
  is not processed; and three events of which the first ends \<open>FAILED\<close> as claimed while the
  write in the \<open>catch\<close> clause of the second rejects, so that the third is never handed to
  the publisher.
\<close>

theorem C6_failure_isolation:
  "(find_fault env = None \<and> distinct (map e_id (outboxEvents (db w))) \<and>
    find_pending (db w) = pre @ b # post \<and> (\<forall>c \<in> set pre. aborts pub env c = None) \<and>
    pub b = Rejected err \<and> failed_fault env (e_id b) = None \<longrightarrow>
      event_by_id (e_id b) (db (tick_with pub env w)) =
        Some (b\<lparr>e_status := FAILED, e_lastError := Some (error_string err),
                e_updatedAt := tick_clock env\<rparr>) \<and>
      published (tick_with pub env w) =
        published w @ pre @ b # take (Suc (length (processed pub env post))) post \<and>
      (\<forall>c \<in> set (processed pub env post).
         event_by_id (e_id c) (db (tick_with pub env w)) = Some (relayed pub env c))) \<and>
   (\<forall>v. snd (handle_event pub env evt v) = aborts pub env evt) \<and>
   (\<forall>err. find_fault env = Some err \<longrightarrow>
      db (tick_with pub env w) = db w \<and>
      published (tick_with pub env w) = published w \<and>
      logged (tick_with pub env w) = logged w @ [Log_error None err ''outbox tick failed''] \<and>
      db (tick_with pub env' (tick_with pub env w)) = db (tick_with pub env' w) \<and>
      published (tick_with pub env' (tick_with pub env w)) = published (tick_with pub env' w))"
proof (intro conjI allI impI)
  assume a: "find_fault env = None \<and> distinct (map e_id (outboxEvents (db w))) \<and>
    find_pending (db w) = pre @ b # post \<and> (\<forall>c \<in> set pre. aborts pub env c = None) \<and>
    pub b = Rejected err \<and> failed_fault env (e_id b) = None"
  then have ab: "aborts pub env b = None" by (simp add: aborts_def)
  have p: "processed pub env (find_pending (db w)) = pre @ b # processed pub env post"
    using a ab by (simp add: processed_append processed_Cons)
  have t: "outboxEvents (db (tick_with pub env w)) =
             map (\<lambda>x. if x \<in> set (processed pub env (find_pending (db w)))
                       then relayed pub env x else x)
               (outboxEvents (db w))"
    using a by (simp add: tick_with_run[of env w pub])
  have d: "db (tick_with pub env w) =
             (db w)\<lparr>outboxEvents :=
                map (\<lambda>x. if x \<in> set (processed pub env (find_pending (db w)))
                          then relayed pub env x else x)
                  (outboxEvents (db w))\<rparr>"
    using a by (simp add: tick_with_run[of env w pub])
  have m: "\<And>c. c \<in> set (processed pub env (find_pending (db w))) \<Longrightarrow>
             event_by_id (e_id c) (db (tick_with pub env w)) = Some (relayed pub env c)"
  proof -
    fix c assume c: "c \<in> set (processed pub env (find_pending (db w)))"
    then have "c \<in> set (find_pending (db w))" by (auto dest: set_processed)
    then have "c \<in> set (outboxEvents (db w))" using set_find_pending by blast
    then show "event_by_id (e_id c) (db (tick_with pub env w)) = Some (relayed pub env c)"
      using event_by_id_relayed[of "db w" c "set (processed pub env (find_pending (db w)))"
          pub env] a c
      by (simp add: d)
  qed
  have "event_by_id (e_id b) (db (tick_with pub env w)) = Some (relayed pub env b)"
    by (rule m) (simp add: p)
  then show "event_by_id (e_id b) (db (tick_with pub env w)) =
        Some (b\<lparr>e_status := FAILED, e_lastError := Some (error_string err),
                e_updatedAt := tick_clock env\<rparr>)"
    using a by (simp add: relayed_def)
  have "published (tick_with pub env w) =
          published w @
            take (Suc (length (processed pub env (find_pending (db w))))) (find_pending (db w))"
    using a by (intro tick_with_calls) simp
  moreover have "take (Suc (length (processed pub env (find_pending (db w)))))
                   (find_pending (db w)) =
                 pre @ b # take (Suc (length (processed pub env post))) post"
    unfolding p using a by simp
  ultimately show "published (tick_with pub env w) =
        published w @ pre @ b # take (Suc (length (processed pub env post))) post"
    by simp
  show "\<forall>c \<in> set (processed pub env post).
         event_by_id (e_id c) (db (tick_with pub env w)) = Some (relayed pub env c)"
  proof
    fix c assume "c \<in> set (processed pub env post)"
    then show "event_by_id (e_id c) (db (tick_with pub env w)) = Some (relayed pub env c)"
      by (intro m) (simp add: p)
  qed
next
  fix v show "snd (handle_event pub env evt v) = aborts pub env evt"
    by (rule handle_event_leaves)
next
  fix err assume f: "find_fault env = Some err"
  note t = tick_with_find_fault[OF f, of pub w]
  show "db (tick_with pub env w) = db w" "published (tick_with pub env w) = published w"
    "logged (tick_with pub env w) = logged w @ [Log_error None err ''outbox tick failed'']"
    by (simp_all add: t)
  have "db (tick_with pub env w) = db w" "published (tick_with pub env w) = published w"
    by (simp_all add: t)
  then show "db (tick_with pub env' (tick_with pub env w)) = db (tick_with pub env' w)"
    "published (tick_with pub env' (tick_with pub env w)) = published (tick_with pub env' w)"
    using tick_with_same_data[of "tick_with pub env w" w pub env'] by simp_all
qed

theorem C6_failure_isolation_witness:
  "find_pending (db world_three) = [evt_1, evt_2, evt_3] \<and>
   event_by_id (ObjectId 2) (db (tick_with failing_publish tick_ok world_three)) =
     Some (evt_2\<lparr>e_status := FAILED, e_lastError := Some ''broker down'', e_updatedAt := 100\<rparr>) \<and>
   published (tick_with failing_publish tick_ok world_three) = [evt_1, evt_2, evt_3] \<and>
   event_by_id (ObjectId 3) (db (tick_with failing_publish tick_ok world_three)) =
     Some (evt_3\<lparr>e_status := FAILED, e_lastError := Some ''broker down'', e_updatedAt := 100\<rparr>) \<and>
   db (tick_with failing_publish tick_find_fault world_three) = db world_three \<and>
   logged (tick_with failing_publish tick_find_fault world_three) =
     [Log_error None connection_lost ''outbox tick failed'']"
proof -
  have a: "\<And>e. aborts failing_publish tick_ok e = None"
    by (simp add: aborts_def failing_publish_def tick_ok_def never_def)
  have h: "find_fault tick_ok = None \<and> distinct (map e_id (outboxEvents (db world_three))) \<and>
    find_pending (db world_three) = [evt_1] @ evt_2 # [evt_3] \<and>
    (\<forall>c \<in> set [evt_1]. aborts failing_publish tick_ok c = None) \<and>
    failing_publish evt_2 = Rejected broker_down \<and> failed_fault tick_ok (e_id evt_2) = None"
    using sample_ids_three
    by (simp add: sample_batch_three a) (simp add: tick_ok_def never_def failing_publish_def)
  have f: "find_fault tick_find_fault = Some connection_lost"
    by (simp add: tick_find_fault_def)
  have p: "processed failing_publish tick_ok [evt_3] = [evt_3]"
    by (simp add: processed_def a)
  have r: "relayed failing_publish tick_ok evt_3 =
             evt_3\<lparr>e_status := FAILED, e_lastError := Some ''broker down'', e_updatedAt := 100\<rparr>"
    by (simp add: relayed_def failing_publish_def broker_down_def tick_ok_def)
  have i: "e_id evt_2 = ObjectId 2" "e_id evt_3 = ObjectId 3"
    by (simp_all add: evt_2_def evt_3_def)
  have l: "logged world_three = []" "published world_three = []"
    "error_string broker_down = ''broker down''" "tick_clock tick_ok = 100"
    by (simp_all add: world_three_def broker_down_def tick_ok_def)
  from C6_failure_isolation[of tick_ok world_three "[evt_1]" evt_2 "[evt_3]" failing_publish
      broker_down evt_1 tick_ok]
    C6_failure_isolation[of tick_find_fault world_three "[]" evt_1 "[]" failing_publish
      broker_down evt_1 tick_ok] h f
  show ?thesis
    by (simp add: sample_batch_three p r i l)
qed

theorem C6_counterexample:
  "refusing_publish evt_1 = Resolved False \<and>
   event_by_id (ObjectId 1) (db (tick_with refusing_publish tick_ok world_two)) =
     Some (evt_1\<lparr>e_status := SENT, e_lastError := None, e_updatedAt := 100\<rparr>) \<and>
   find_pending (db world_two) = [evt_1, evt_2] \<and>
   failing_publish evt_1 = Rejected broker_down \<and>
   event_by_id (ObjectId 1) (db (tick_with failing_publish tick_failed_fault world_two)) =
     Some evt_1 \<and>
   e_status evt_1 = PENDING \<and>
   published (tick_with failing_publish tick_failed_fault world_two) = [evt_1] \<and>
   find_pending (db world_three) = [evt_1, evt_2, evt_3] \<and>
   failed_fault tick_second_failed_fault (ObjectId 1) = None \<and>
   event_by_id (ObjectId 1) (db (tick_with failing_publish tick_second_failed_fault world_three)) =
     Some (evt_1\<lparr>e_status := FAILED, e_lastError := Some ''broker down'', e_updatedAt := 100\<rparr>) \<and>
   published (tick_with failing_publish tick_second_failed_fault world_three) = [evt_1, evt_2] \<and>
   event_by_id (ObjectId 3) (db (tick_with failing_publish tick_second_failed_fault world_three)) =
     Some evt_3 \<and>
   e_status evt_3 = PENDING"
proof -
  have i: "e_id evt_1 = ObjectId 1" "e_status evt_1 = PENDING" "e_id evt_2 = ObjectId 2"
    "e_id evt_3 = ObjectId 3" "e_status evt_3 = PENDING"
    by (simp_all add: evt_1_def evt_2_def evt_3_def)
  have n: "evt_1 \<noteq> evt_2" "evt_1 \<noteq> evt_3" "evt_2 \<noteq> evt_1" "evt_3 \<noteq> evt_1"
    by (simp_all add: evt_1_def evt_2_def evt_3_def)
  have p: "published world_two = []" "published world_three = []"
    "outboxEvents (db world_two) = [evt_2, evt_1]"
    "outboxEvents (db world_three) = [evt_1, evt_2, evt_3]"
    by (simp_all add: world_two_def world_three_def)

  have ra: "aborts refusing_publish tick_ok evt_1 = None"
    "aborts refusing_publish tick_ok evt_2 = None"
    by (simp_all add: aborts_def refusing_publish_def tick_ok_def never_def)
  have rp: "processed refusing_publish tick_ok [evt_1, evt_2] = [evt_1, evt_2]"
    by (simp add: processed_def ra)
  have rr: "relayed refusing_publish tick_ok evt_1 =
              evt_1\<lparr>e_status := SENT, e_lastError := None, e_updatedAt := 100\<rparr>"
    by (simp add: relayed_def refusing_publish_def tick_ok_def never_def)
  have rf: "find_fault tick_ok = None" by (simp add: tick_ok_def)
  have rt: "outboxEvents (db (tick_with refusing_publish tick_ok world_two)) =
              [relayed refusing_publish tick_ok evt_2, relayed refusing_publish tick_ok evt_1]"
    using sample_ids
    by (simp add: tick_with_run[of tick_ok world_two refusing_publish] rf
        sample_batch rp p n)
  have re: "e_id (relayed refusing_publish tick_ok evt_2) = ObjectId 2"
    by (simp add: relayed_id i)
  have c1: "event_by_id (ObjectId 1) (db (tick_with refusing_publish tick_ok world_two)) =
     Some (evt_1\<lparr>e_status := SENT, e_lastError := None, e_updatedAt := 100\<rparr>)"
    by (simp add: event_by_id_def rt re rr i)

  have h: "handle_event failing_publish tick_failed_fault evt_1 world_two =
             (world_two\<lparr>published := [evt_1]\<rparr>, Some connection_lost)"
    by (simp add: handle_event_def on_failure_def Let_def failing_publish_def
        tick_failed_fault_def at_first_def i p)
  have f: "find_fault tick_failed_fault = None" by (simp add: tick_failed_fault_def)
  have t: "tick_with failing_publish tick_failed_fault world_two =
             world_two\<lparr>published := [evt_1],
               logged := logged world_two @ [Log_error None connection_lost ''outbox tick failed'']\<rparr>"
    by (simp add: tick_with_def f sample_batch h)
  have c2: "event_by_id (ObjectId 1) (db (tick_with failing_publish tick_failed_fault world_two)) =
     Some evt_1"
    "published (tick_with failing_publish tick_failed_fault world_two) = [evt_1]"
    by (simp_all add: t event_by_id_def p i)

  have sa: "aborts failing_publish tick_second_failed_fault evt_1 = None"
    "aborts failing_publish tick_second_failed_fault evt_2 = Some connection_lost"
    by (simp_all add: aborts_def failing_publish_def tick_second_failed_fault_def at_second_def i)
  have sp: "processed failing_publish tick_second_failed_fault [evt_1, evt_2, evt_3] = [evt_1]"
    by (simp add: processed_def sa)
  have sr: "relayed failing_publish tick_second_failed_fault evt_1 =
              evt_1\<lparr>e_status := FAILED, e_lastError := Some ''broker down'', e_updatedAt := 100\<rparr>"
    by (simp add: relayed_def failing_publish_def broker_down_def tick_second_failed_fault_def)
  have sf: "find_fault tick_second_failed_fault = None"
    "failed_fault tick_second_failed_fault (ObjectId 1) = None"
    by (simp_all add: tick_second_failed_fault_def at_second_def)
  have st: "outboxEvents (db (tick_with failing_publish tick_second_failed_fault world_three)) =
              [relayed failing_publish tick_second_failed_fault evt_1, evt_2, evt_3]"
    using sample_ids_three
    by (simp add: tick_with_run[of tick_second_failed_fault world_three failing_publish] sf
        sample_batch_three sp p n)
  have c3: "event_by_id (ObjectId 1)
              (db (tick_with failing_publish tick_second_failed_fault world_three)) =
     Some (evt_1\<lparr>e_status := FAILED, e_lastError := Some ''broker down'', e_updatedAt := 100\<rparr>)"
    "event_by_id (ObjectId 3)
              (db (tick_with failing_publish tick_second_failed_fault world_three)) = Some evt_3"
    by (simp_all add: event_by_id_def st sr i)
  have c4: "published (tick_with failing_publish tick_second_failed_fault world_three) =
              [evt_1, evt_2]"
    by (simp add: tick_with_calls[of tick_second_failed_fault failing_publish world_three] sf
        sample_batch_three sp p)
  have c0: "refusing_publish evt_1 = Resolved False" "failing_publish evt_1 = Rejected broker_down"
    by (simp_all add: refusing_publish_def failing_publish_def)
  show ?thesis
    by (intro conjI) (rule c0 c1 c2 c3 c4 sample_batch sample_batch_three i sf)+
qed

text \<open>
  Only a rejection counts as a failed publish: the value a publish resolves to is not
  read, so an event whose publish resolves to \<open>false\<close> ends \<open>SENT\<close>.
\<close>

lemma resolved_value_not_read:
  assumes "pub e = Resolved v" and "sent_fault env (e_id e) = None"
  shows "relayed pub env e =
           e\<lparr>e_status := SENT, e_lastError := None, e_updatedAt := tick_clock env\<rparr>"
  using assms by (simp add: relayed_def)




end
